theory Spec2Isabelle
  imports Complex_Main "HOL-Library.Word" "HOL-Library.Log_Nat"
begin

unbundle bit_operations_syntax

section \<open>The binary STL loader (src/loaders/binary-stl.ts)\<close>

subsection \<open>Bytes, numbers and the DataView reads\<close>

text \<open>
  An \<open>ArrayBuffer\<close> is its list of bytes. A \<open>DataView\<close> read at an offset that does
  not leave room for the whole value throws \<open>RangeError\<close>; every read of the model
  returns \<open>Inl RangeError\<close> there.

  A JavaScript number is an IEEE 754 double. It is modelled by the value it denotes: the
  special values (one \<open>NaN\<close>, as JavaScript cannot tell the payloads apart), the
  negative zero, or a rational. \<open>getFloat32\<close> gives the value of the four bytes as a
  binary32. A quotient \<open>x / y\<close> is the exact quotient rounded to the nearest double, and
  a store into a \<open>Float32Array\<close> rounds the stored number to the nearest binary32
  (\<open>fround\<close>, as \<open>Math.fround\<close>), both with ties to even.

  A \<open>Float32Array\<close> is the list of its elements. \<open>new Float32Array(n)\<close> gives \<open>n\<close>
  zeros, or throws \<open>RangeError\<close> when the host cannot allocate an array of that length:
  the host is represented by the greatest length \<open>cap\<close> it can allocate, a parameter
  of the loader.

  \<open>and_then\<close> passes the value of a step that did not throw to the rest of the code.
\<close>

type_synonym byte = "8 word"

datatype error = RangeError

datatype number = NaN | NegInfinity | PosInfinity | NegZero | Num rat

definition and_then :: "error + 'a \<Rightarrow> ('a \<Rightarrow> error + 'b) \<Rightarrow> error + 'b" where
  "and_then m f = (case m of Inl err \<Rightarrow> Inl err | Inr x \<Rightarrow> f x)"

definition getUint8 :: "byte list \<Rightarrow> nat \<Rightarrow> error + byte" where
  "getUint8 d off = (if off + 1 \<le> length d then Inr (d ! off) else Inl RangeError)"

definition getUint16 :: "byte list \<Rightarrow> nat \<Rightarrow> bool \<Rightarrow> error + 16 word" where
  "getUint16 d off littleEndian =
     (if off + 2 \<le> length d then
        (let b0 = ucast (d ! off) :: 16 word; b1 = ucast (d ! (off + 1)) :: 16 word
         in Inr (if littleEndian then push_bit 8 b1 OR b0 else push_bit 8 b0 OR b1))
      else Inl RangeError)"

definition getUint32 :: "byte list \<Rightarrow> nat \<Rightarrow> bool \<Rightarrow> error + 32 word" where
  "getUint32 d off littleEndian =
     (if off + 4 \<le> length d then
        (let b0 = ucast (d ! off) :: 32 word; b1 = ucast (d ! (off + 1)) :: 32 word;
             b2 = ucast (d ! (off + 2)) :: 32 word; b3 = ucast (d ! (off + 3)) :: 32 word
         in Inr (if littleEndian
                 then push_bit 24 b3 OR push_bit 16 b2 OR push_bit 8 b1 OR b0
                 else push_bit 24 b0 OR push_bit 16 b1 OR push_bit 8 b2 OR b3))
      else Inl RangeError)"

text \<open>
  The value of an IEEE 754 binary32 bit pattern: sign bit 31, biased exponent in bits
  23 to 30, fraction in bits 0 to 22.
\<close>

definition decode_f32 :: "32 word \<Rightarrow> number" where
  "decode_f32 w =
     (let sign = bit w 31;
          e = unat (drop_bit 23 w AND 0xFF);
          m = unat (w AND 0x7FFFFF)
      in if e = 255 then (if m = 0 then (if sign then NegInfinity else PosInfinity) else NaN)
         else if e = 0 \<and> m = 0 then (if sign then NegZero else Num 0)
         else (let mag = (if e = 0 then of_nat m / 2 ^ 149
                          else of_nat (2 ^ 23 + m) * 2 ^ e / 2 ^ 150) :: rat
               in Num (if sign then - mag else mag)))"

definition getFloat32 :: "byte list \<Rightarrow> nat \<Rightarrow> bool \<Rightarrow> error + number" where
  "getFloat32 d off littleEndian =
     and_then (getUint32 d off littleEndian) (\<lambda>w. Inr (decode_f32 w))"

text \<open>
  Rounding to the nearest integer, ties to even; the exponent of a positive rational
  (\<open>2 ^ ilog2 x \<le> x < 2 ^ (ilog2 x + 1)\<close>, lemma \<open>ilog2_bounds\<close>); and rounding to the
  nearest number of a binary format with \<open>p\<close> significant bits and exponents from \<open>emin\<close>
  to \<open>emax\<close>, ties to even, with gradual underflow and overflow to infinity.
\<close>

definition round_half_even :: "rat \<Rightarrow> int" where
  "round_half_even x =
     (let n = \<lfloor>x\<rfloor>; r = x - of_int n
      in if r < 1 / 2 then n else if 1 / 2 < r then n + 1 else if even n then n else n + 1)"

definition ilog2 :: "rat \<Rightarrow> int" where
  "ilog2 x =
     (case quotient_of x of (a, b) \<Rightarrow>
        let k = bitlen a - bitlen b in if 2 powi k \<le> x then k else k - 1)"

definition round_binary :: "nat \<Rightarrow> int \<Rightarrow> int \<Rightarrow> rat \<Rightarrow> number" where
  "round_binary p emin emax x =
     (if x = 0 then Num 0
      else
        let a = \<bar>x\<bar>;
            e = max (ilog2 a) emin;
            ulp = 2 powi (e - int p + 1);
            n = round_half_even (a / ulp);
            v = of_int n * ulp
        in if 2 powi (emax + 1) \<le> v then (if x < 0 then NegInfinity else PosInfinity)
           else if n = 0 then (if x < 0 then NegZero else Num 0)
           else Num (if x < 0 then - v else v))"

text \<open>The nearest double of a rational, and the nearest binary32 of a number.\<close>

definition round_f64 :: "rat \<Rightarrow> number" where
  "round_f64 x = round_binary 53 (- 1022) 1023 x"

definition fround :: "number \<Rightarrow> number" where
  "fround v = (case v of Num x \<Rightarrow> round_binary 24 (- 126) 127 x | _ \<Rightarrow> v)"

definition new_Float32Array :: "nat \<Rightarrow> nat \<Rightarrow> error + number list" where
  "new_Float32Array cap n = (if n \<le> cap then Inr (replicate n (Num 0)) else Inl RangeError)"

subsection \<open>The decoded model and the local variables of parse\<close>

record ModelData =
  hasColors :: bool
  position :: "number list"
  normals :: "number list"
  colors :: "number list option"
  alpha :: "number option"

text \<open>
  The mutable locals of \<open>parse\<close>. \<open>vertices\<close> and \<open>normals\<close> are declared after the
  header scan; they are the empty array until then.
\<close>

record locals =
  var_r :: number
  var_g :: number
  var_b :: number
  var_hasColors :: bool
  var_defaultR :: number
  var_defaultG :: number
  var_defaultB :: number
  var_alpha :: number
  var_colors :: "number list option"
  var_vertices :: "number list"
  var_normals :: "number list"

definition init_locals :: locals where
  "init_locals =
     \<lparr>var_r = Num 0, var_g = Num 0, var_b = Num 0, var_hasColors = False,
      var_defaultR = Num 0, var_defaultG = Num 0, var_defaultB = Num 0, var_alpha = Num 0,
      var_colors = None, var_vertices = [], var_normals = []\<rparr>"

text \<open>
  The quotients of the loader, \<open>x / 255\<close> of a byte and \<open>x / 31\<close> of a 16-bit value:
  divisions of doubles that hold integers.
\<close>

definition div_byte :: "byte \<Rightarrow> nat \<Rightarrow> number" where
  "div_byte x n = round_f64 (of_nat (unat x) / of_nat n)"

definition div_u16 :: "16 word \<Rightarrow> nat \<Rightarrow> number" where
  "div_u16 x n = round_f64 (of_nat (unat x) / of_nat n)"

subsection \<open>The header scan\<close>

text \<open>The condition of the \<open>if\<close> in the header loop, with the short circuit of \<open>&&\<close>.\<close>

definition header_test :: "byte list \<Rightarrow> nat \<Rightarrow> error + bool" where
  "header_test d index =
     and_then (getUint32 d index False) (\<lambda>w.
       if w = 0x434F4C4F then
         and_then (getUint8 d (index + 4)) (\<lambda>c.
           if c = 0x52 then
             and_then (getUint8 d (index + 5)) (\<lambda>c'. Inr (c' = 0x3D))
           else Inr False)
       else Inr False)"

text \<open>The body of the \<open>if\<close> (lines 25 to 31): the allocation comes before the reads.\<close>

definition header_match ::
  "nat \<Rightarrow> byte list \<Rightarrow> nat \<Rightarrow> nat \<Rightarrow> locals \<Rightarrow> error + locals" where
  "header_match cap d faces index s =
     and_then (new_Float32Array cap (faces * 3 * 3)) (\<lambda>colors'.
     and_then (getUint8 d (index + 6)) (\<lambda>x6.
     and_then (getUint8 d (index + 7)) (\<lambda>x7.
     and_then (getUint8 d (index + 8)) (\<lambda>x8.
     and_then (getUint8 d (index + 9)) (\<lambda>x9.
       Inr (s\<lparr>var_hasColors := True,
               var_colors := Some colors',
               var_defaultR := div_byte x6 255,
               var_defaultG := div_byte x7 255,
               var_defaultB := div_byte x8 255,
               var_alpha := div_byte x9 255\<rparr>))))))"

definition header_body ::
  "nat \<Rightarrow> byte list \<Rightarrow> nat \<Rightarrow> nat \<Rightarrow> locals \<Rightarrow> error + locals" where
  "header_body cap d faces index s =
     and_then (header_test d index) (\<lambda>found.
       if found then header_match cap d faces index s else Inr s)"

function header_loop ::
  "nat \<Rightarrow> byte list \<Rightarrow> nat \<Rightarrow> nat \<Rightarrow> locals \<Rightarrow> error + locals" where
  "header_loop cap d faces index s =
     (if index < 80 - 10 then
        and_then (header_body cap d faces index s)
          (\<lambda>s'. header_loop cap d faces (index + 1) s')
      else Inr s)"
  by pat_completeness auto
termination
  by (relation "measure (\<lambda>(cap, d, faces, index, s). 70 - index)") auto

declare header_loop.simps [simp del]

subsection \<open>The facet loop\<close>

definition dataOffset :: nat where
  "dataOffset = 84"

definition faceLength :: nat where
  "faceLength = 12 * 4 + 2"

text \<open>The colour of a facet (lines 50 to 70): only when \<open>colors\<close> is an array.\<close>

definition facet_color :: "byte list \<Rightarrow> nat \<Rightarrow> locals \<Rightarrow> error + locals" where
  "facet_color d start s =
     (case var_colors s of
        None \<Rightarrow> Inr s
      | Some cs \<Rightarrow>
          and_then (getUint16 d (start + 48) True) (\<lambda>packedColor.
            if packedColor AND 0x8000 = 0 then
              Inr (s\<lparr>var_r := div_u16 (packedColor AND 0x1F) 31,
                      var_g := div_u16 (drop_bit 5 packedColor AND 0x1F) 31,
                      var_b := div_u16 (drop_bit 10 packedColor AND 0x1F) 31\<rparr>)
            else
              Inr (s\<lparr>var_r := var_defaultR s,
                      var_g := var_defaultG s,
                      var_b := var_defaultB s\<rparr>)))"

text \<open>
  One round of the vertex loop (lines 74 to 89). Every store is into a \<open>Float32Array\<close>
  and rounds to binary32. A store into a typed array at an index outside it is ignored,
  which is what \<open>list_update\<close> does.
\<close>

definition vertex_body ::
  "byte list \<Rightarrow> nat \<Rightarrow> nat \<Rightarrow> number \<times> number \<times> number \<Rightarrow> nat \<Rightarrow> locals \<Rightarrow> error + locals" where
  "vertex_body d start face normal i s =
     (let vertexstart = start + i * 12;
          componentIdx = (face * 3 * 3) + ((i - 1) * 3)
      in and_then (getFloat32 d vertexstart True) (\<lambda>x.
         and_then (getFloat32 d (vertexstart + 4) True) (\<lambda>y.
         and_then (getFloat32 d (vertexstart + 8) True) (\<lambda>z.
           (case normal of (normalX, normalY, normalZ) \<Rightarrow>
              let s1 = s\<lparr>var_vertices :=
                           (var_vertices s)[componentIdx := fround x,
                                            componentIdx + 1 := fround y,
                                            componentIdx + 2 := fround z],
                         var_normals :=
                           (var_normals s)[componentIdx := fround normalX,
                                           componentIdx + 1 := fround normalY,
                                           componentIdx + 2 := fround normalZ]\<rparr>
              in Inr (case var_colors s1 of
                        None \<Rightarrow> s1
                      | Some cs \<Rightarrow>
                          s1\<lparr>var_colors :=
                                Some (cs[componentIdx := fround (var_r s1),
                                         componentIdx + 1 := fround (var_g s1),
                                         componentIdx + 2 := fround (var_b s1)])\<rparr>))))))"

function vertex_loop ::
  "byte list \<Rightarrow> nat \<Rightarrow> nat \<Rightarrow> number \<times> number \<times> number \<Rightarrow> nat \<Rightarrow> locals \<Rightarrow> error + locals" where
  "vertex_loop d start face normal i s =
     (if i \<le> 3 then
        and_then (vertex_body d start face normal i s)
          (\<lambda>s'. vertex_loop d start face normal (i + 1) s')
      else Inr s)"
  by pat_completeness auto
termination
  by (relation "measure (\<lambda>(d, start, face, normal, i, s). 4 - i)") auto

declare vertex_loop.simps [simp del]

definition facet_body :: "byte list \<Rightarrow> nat \<Rightarrow> locals \<Rightarrow> error + locals" where
  "facet_body d face s =
     (let start = dataOffset + face * faceLength
      in and_then (getFloat32 d start True) (\<lambda>normalX.
         and_then (getFloat32 d (start + 4) True) (\<lambda>normalY.
         and_then (getFloat32 d (start + 8) True) (\<lambda>normalZ.
         and_then (facet_color d start s) (\<lambda>s'.
           vertex_loop d start face (normalX, normalY, normalZ) 1 s')))))"

function facet_loop :: "byte list \<Rightarrow> nat \<Rightarrow> nat \<Rightarrow> locals \<Rightarrow> error + locals" where
  "facet_loop d faces face s =
     (if face < faces then
        and_then (facet_body d face s) (\<lambda>s'. facet_loop d faces (face + 1) s')
      else Inr s)"
  by pat_completeness auto
termination
  by (relation "measure (\<lambda>(d, faces, face, s). faces - face)") auto

declare facet_loop.simps [simp del]

subsection \<open>parse\<close>

definition result_of :: "locals \<Rightarrow> ModelData" where
  "result_of s =
     (case (if var_hasColors s then var_colors s else None) of
        Some cs \<Rightarrow>
          \<lparr>hasColors = var_hasColors s, position = var_vertices s, normals = var_normals s,
           colors = Some cs, alpha = Some (var_alpha s)\<rparr>
      | None \<Rightarrow>
          \<lparr>hasColors = var_hasColors s, position = var_vertices s, normals = var_normals s,
           colors = None, alpha = None\<rparr>)"

definition parse :: "nat \<Rightarrow> byte list \<Rightarrow> error + ModelData" where
  "parse cap d =
     and_then (getUint32 d 80 True) (\<lambda>w.
       let faces = unat w
       in and_then (header_loop cap d faces 0 init_locals) (\<lambda>s0.
          and_then (new_Float32Array cap (faces * 3 * 3)) (\<lambda>vertices.
          and_then (new_Float32Array cap (faces * 3 * 3)) (\<lambda>normals'.
            let s1 = s0\<lparr>var_vertices := vertices, var_normals := normals'\<rparr>
            in and_then (facet_loop d faces 0 s1) (\<lambda>s2. Inr (result_of s2))))))"

subsection \<open>Predicates for stating what the loader does\<close>

text \<open>
  The six bytes \<open>COLOR=\<close> start at offset \<open>i\<close>. The test of the header loop is this
  predicate wherever its reads are in range (\<open>header_test_marker\<close> below).
\<close>

definition color_marker :: "byte list \<Rightarrow> nat \<Rightarrow> bool" where
  "color_marker d i \<longleftrightarrow>
     d ! i = 0x43 \<and> d ! (i + 1) = 0x4F \<and> d ! (i + 2) = 0x4C \<and> d ! (i + 3) = 0x4F \<and>
     d ! (i + 4) = 0x52 \<and> d ! (i + 5) = 0x3D"

text \<open>
  Component \<open>k\<close> (0 red, 1 green, 2 blue) of the colour the loop gives a facet with the
  packed colour \<open>p\<close>, as the double held in \<open>r\<close>, \<open>g\<close>, \<open>b\<close>.
\<close>

definition facet_rgb :: "locals \<Rightarrow> 16 word \<Rightarrow> nat \<Rightarrow> number" where
  "facet_rgb s p k =
     (if p AND 0x8000 = 0 then div_u16 (drop_bit (5 * k) p AND 0x1F) 31
      else [var_defaultR s, var_defaultG s, var_defaultB s] ! k)"

text \<open>The nine stores of one facet into one array, from index \<open>c\<close> on.\<close>

definition upd9 :: "'a list \<Rightarrow> nat \<Rightarrow> (nat \<Rightarrow> 'a) \<Rightarrow> 'a list" where
  "upd9 xs c v =
     xs[c := v 0, c + 1 := v 1, c + 2 := v 2, c + 3 := v 3, c + 4 := v 4, c + 5 := v 5,
        c + 6 := v 6, c + 7 := v 7, c + 8 := v 8]"

text \<open>
  The entries of facet \<open>f\<close> in the arrays are what its record says, the colours rounded
  to binary32; the arrays have
  \<open>n\<close> elements; two states agree on the entries below \<open>n\<close>. These make the invariant
  of the facet loop.
\<close>

definition facet_ok :: "byte list \<Rightarrow> nat \<Rightarrow> locals \<Rightarrow> bool" where
  "facet_ok d f s \<longleftrightarrow>
     (\<forall>k<9. Inr (var_normals s ! (f * 9 + k)) = getFloat32 d (84 + f * 50 + 4 * (k mod 3)) True) \<and>
     (\<forall>k<9. Inr (var_vertices s ! (f * 9 + k)) = getFloat32 d (84 + f * 50 + 12 + 4 * k) True) \<and>
     (\<forall>cs. var_colors s = Some cs \<longrightarrow>
        (\<exists>p. getUint16 d (84 + f * 50 + 48) True = Inr p \<and>
           (\<forall>k<9. cs ! (f * 9 + k) = fround (facet_rgb s p (k mod 3)))))"

definition arrays_sized :: "nat \<Rightarrow> locals \<Rightarrow> bool" where
  "arrays_sized n s \<longleftrightarrow>
     length (var_normals s) = n \<and> length (var_vertices s) = n \<and>
     (\<forall>cs. var_colors s = Some cs \<longrightarrow> length cs = n)"

definition agree_below :: "nat \<Rightarrow> locals \<Rightarrow> locals \<Rightarrow> bool" where
  "agree_below n s s' \<longleftrightarrow>
     (var_colors s' = None \<longleftrightarrow> var_colors s = None) \<and>
     (\<forall>idx<n. var_normals s' ! idx = var_normals s ! idx \<and>
        var_vertices s' ! idx = var_vertices s ! idx \<and>
        (\<forall>cs cs'. var_colors s = Some cs \<longrightarrow> var_colors s' = Some cs' \<longrightarrow>
           cs' ! idx = cs ! idx))"

text \<open>The end of the bytes that the loop reads of facet \<open>f\<close>.\<close>

definition facet_extent :: "locals \<Rightarrow> nat \<Rightarrow> nat" where
  "facet_extent s f = 84 + f * 50 + (if var_colors s = None then 48 else 50)"

text \<open>Four bytes as a big-endian word, as \<open>getUint32\<close> puts them together.\<close>

definition be32 :: "byte \<Rightarrow> byte \<Rightarrow> byte \<Rightarrow> byte \<Rightarrow> 32 word" where
  "be32 a b c e = push_bit 24 (ucast a) OR push_bit 16 (ucast b) OR push_bit 8 (ucast c) OR ucast e"

text \<open>The facet loop leaves the locals of the header scan alone.\<close>

definition same_header :: "locals \<Rightarrow> locals \<Rightarrow> bool" where
  "same_header s s' \<longleftrightarrow>
     var_hasColors s' = var_hasColors s \<and> var_defaultR s' = var_defaultR s \<and>
     var_defaultG s' = var_defaultG s \<and> var_defaultB s' = var_defaultB s \<and>
     var_alpha s' = var_alpha s"

text \<open>
  The locals after the header scan: the initial ones when no marker starts in
  \<open>[0, 70)\<close>, and otherwise those set from the last marker.
\<close>

definition header_done :: "byte list \<Rightarrow> nat \<Rightarrow> locals \<Rightarrow> bool" where
  "header_done d faces s0 \<longleftrightarrow>
     ((\<forall>i<70. \<not> color_marker d i) \<and> s0 = init_locals) \<or>
     (\<exists>i<70. color_marker d i \<and> (\<forall>j. i < j \<and> j < 70 \<longrightarrow> \<not> color_marker d j) \<and>
        s0 = init_locals\<lparr>var_hasColors := True,
               var_colors := Some (replicate (faces * 9) (Num 0)),
               var_defaultR := div_byte (d ! (i + 6)) 255,
               var_defaultG := div_byte (d ! (i + 7)) 255,
               var_defaultB := div_byte (d ! (i + 8)) 255,
               var_alpha := div_byte (d ! (i + 9)) 255\<rparr>)"

subsection \<open>Concrete buffers\<close>

text \<open>
  The 48 bytes of one facet without its attribute bytes: normal \<open>(0, 0, 1)\<close>, vertices
  \<open>(0, 0, 0)\<close>, \<open>(1, 0, 0)\<close>, \<open>(0, 1, 0)\<close>, as little-endian binary32 (\<open>1.0\<close> is
  \<open>00 00 80 3F\<close>).
\<close>

definition triangle_floats :: "byte list" where
  "triangle_floats =
     [0, 0, 0, 0,  0, 0, 0, 0,  0, 0, 0x80, 0x3F,
      0, 0, 0, 0,  0, 0, 0, 0,  0, 0, 0, 0,
      0, 0, 0x80, 0x3F,  0, 0, 0, 0,  0, 0, 0, 0,
      0, 0, 0, 0,  0, 0, 0x80, 0x3F,  0, 0, 0, 0]"

text \<open>
  Headers: 80 equal bytes; \<open>COLOR=\<close> with grey, opaque; two markers in a row, the
  second with the colour bytes \<open>FF 40 00\<close> and the alpha byte \<open>80\<close>.
\<close>

definition blank_header :: "byte \<Rightarrow> byte list" where
  "blank_header fill = replicate 80 fill"

definition color_header :: "byte list" where
  "color_header = [0x43, 0x4F, 0x4C, 0x4F, 0x52, 0x3D, 0x80, 0x80, 0x80, 0xFF] @ replicate 70 0"

definition two_marker_header :: "byte list" where
  "two_marker_header =
     [0x43, 0x4F, 0x4C, 0x4F, 0x52, 0x3D, 0x80, 0x80, 0x80, 0xFF,
      0x43, 0x4F, 0x4C, 0x4F, 0x52, 0x3D, 0xFF, 0x40, 0x00, 0x80] @ replicate 60 0"

text \<open>
  One triangle behind a blank header (134 bytes); the same without the two attribute
  bytes (132 bytes); the same cut in the middle of the record (114 bytes).
\<close>

definition single_triangle :: "byte \<Rightarrow> byte list" where
  "single_triangle fill = blank_header fill @ [1, 0, 0, 0] @ triangle_floats @ [0, 0]"

definition short_triangle :: "byte list" where
  "short_triangle = blank_header 0 @ [1, 0, 0, 0] @ triangle_floats"

definition cut_triangle :: "byte list" where
  "cut_triangle = blank_header 0 @ [1, 0, 0, 0] @ take 30 triangle_floats"

text \<open>
  Three triangles behind the colour header: the first with the packed colour \<open>0x001F\<close>
  (bit 15 clear, red 31), the second with \<open>0x8000\<close> (bit 15 set), the third with
  \<open>0x4210\<close> (bit 15 clear, red, green and blue 16). One triangle with \<open>0x8000\<close> behind
  the two markers. No facet, behind a blank header and behind the two markers.
\<close>

definition colored_mesh :: "byte list" where
  "colored_mesh =
     color_header @ [3, 0, 0, 0] @ triangle_floats @ [0x1F, 0x00] @ triangle_floats @ [0x00, 0x80] @
       triangle_floats @ [0x10, 0x42]"

definition two_marker_mesh :: "byte list" where
  "two_marker_mesh = two_marker_header @ [1, 0, 0, 0] @ triangle_floats @ [0x00, 0x80]"

definition empty_mesh :: "byte list" where
  "empty_mesh = blank_header 0 @ [0, 0, 0, 0]"

definition empty_colored :: "byte list" where
  "empty_colored = two_marker_header @ [0, 0, 0, 0]"

text \<open>
  A marker that starts at offset 66, so that its last two bytes lie behind the first 70
  bytes of the header, with the alpha byte \<open>80\<close>; then the facet count 0. Before it,
  66 zero bytes, or the grey, opaque marker at offset 0 and zero bytes.
\<close>

definition late_marker :: "byte list" where
  "late_marker =
     [0x43, 0x4F, 0x4C, 0x4F, 0x52, 0x3D, 0xFF, 0x00, 0x00, 0x80,  0, 0, 0, 0,  0, 0, 0, 0]"

definition straddle_mesh :: "byte list" where
  "straddle_mesh = replicate 66 0 @ late_marker"

definition straddle_colored :: "byte list" where
  "straddle_colored =
     [0x43, 0x4F, 0x4C, 0x4F, 0x52, 0x3D, 0x80, 0x80, 0x80, 0xFF] @ replicate 56 0 @ late_marker"

subsection \<open>The loader on an explicit heap\<close>

text \<open>
  To say what \<open>parse\<close> may change, the objects are put in a heap: a list of objects, a
  reference being an index, \<open>new\<close> appending an object. \<open>parse_h\<close> is the loader again,
  statement by statement, with every \<open>DataView\<close> read going to the heap at \<open>data\<close> and
  every store into a typed array going to the heap at the reference of that array. An
  exception carries the heap at the throw. The \<open>DataView\<close> is a view of \<open>data\<close> and has
  no state of its own.
\<close>

type_synonym ref = nat

datatype obj = ArrayBuffer "byte list" | Float32Array "number list"

type_synonym heap = "obj list"

datatype 'a outcome = Throw error heap | Return 'a heap

definition buffer_of :: "heap \<Rightarrow> ref \<Rightarrow> byte list" where
  "buffer_of h a = (case h ! a of ArrayBuffer bs \<Rightarrow> bs | Float32Array xs \<Rightarrow> [])"

definition floats_of :: "heap \<Rightarrow> ref \<Rightarrow> number list" where
  "floats_of h a = (case h ! a of Float32Array xs \<Rightarrow> xs | ArrayBuffer bs \<Rightarrow> [])"

definition heap_after :: "'a outcome \<Rightarrow> heap" where
  "heap_after out = (case out of Throw err h \<Rightarrow> h | Return x h \<Rightarrow> h)"

definition seq :: "(heap \<Rightarrow> 'a outcome) \<Rightarrow> ('a \<Rightarrow> heap \<Rightarrow> 'b outcome) \<Rightarrow> heap \<Rightarrow> 'b outcome" where
  "seq m f h = (case m h of Throw err h' \<Rightarrow> Throw err h' | Return x h' \<Rightarrow> f x h')"

definition ret :: "'a \<Rightarrow> heap \<Rightarrow> 'a outcome" where
  "ret x h = Return x h"

text \<open>A read through the \<open>DataView\<close> of \<open>data\<close>; the heap stays as it is.\<close>

definition view :: "ref \<Rightarrow> (byte list \<Rightarrow> error + 'a) \<Rightarrow> heap \<Rightarrow> 'a outcome" where
  "view data rd h = (case rd (buffer_of h data) of Inl err \<Rightarrow> Throw err h | Inr x \<Rightarrow> Return x h)"

text \<open>
  \<open>new Float32Array(n)\<close>: a fresh object of \<open>n\<close> zeros at the end of the heap, or
  \<open>RangeError\<close> and the heap as it was when the host cannot allocate that length.
\<close>

definition alloc_Float32Array :: "nat \<Rightarrow> nat \<Rightarrow> heap \<Rightarrow> ref outcome" where
  "alloc_Float32Array cap n h =
     (if n \<le> cap then Return (length h) (h @ [Float32Array (replicate n (Num 0))])
      else Throw RangeError h)"

text \<open>\<open>a[i] = x\<close> on the typed array at reference \<open>a\<close>: the element is \<open>x\<close> as a binary32.\<close>

definition wr :: "ref \<Rightarrow> nat \<Rightarrow> number \<Rightarrow> heap \<Rightarrow> heap" where
  "wr a i x h = h[a := Float32Array ((floats_of h a)[i := fround x])]"

definition store :: "ref \<Rightarrow> nat \<Rightarrow> number \<Rightarrow> heap \<Rightarrow> unit outcome" where
  "store a i x h = Return () (wr a i x h)"

text \<open>
  The locals that are not arrays, and \<open>colors\<close> as a reference. \<open>vertices\<close> and \<open>normals\<close>
  are assigned once and are passed to the loops.
\<close>

record hlocals =
  ref_r :: number
  ref_g :: number
  ref_b :: number
  ref_hasColors :: bool
  ref_defaultR :: number
  ref_defaultG :: number
  ref_defaultB :: number
  ref_alpha :: number
  ref_colors :: "ref option"

definition init_hlocals :: hlocals where
  "init_hlocals =
     \<lparr>ref_r = Num 0, ref_g = Num 0, ref_b = Num 0, ref_hasColors = False,
      ref_defaultR = Num 0, ref_defaultG = Num 0, ref_defaultB = Num 0, ref_alpha = Num 0,
      ref_colors = None\<rparr>"

definition header_match_h ::
  "nat \<Rightarrow> ref \<Rightarrow> nat \<Rightarrow> nat \<Rightarrow> hlocals \<Rightarrow> heap \<Rightarrow> hlocals outcome" where
  "header_match_h cap data faces index v =
     seq (alloc_Float32Array cap (faces * 3 * 3)) (\<lambda>colors'.
     seq (view data (\<lambda>d. getUint8 d (index + 6))) (\<lambda>x6.
     seq (view data (\<lambda>d. getUint8 d (index + 7))) (\<lambda>x7.
     seq (view data (\<lambda>d. getUint8 d (index + 8))) (\<lambda>x8.
     seq (view data (\<lambda>d. getUint8 d (index + 9))) (\<lambda>x9.
       ret (v\<lparr>ref_hasColors := True,
               ref_colors := Some colors',
               ref_defaultR := div_byte x6 255,
               ref_defaultG := div_byte x7 255,
               ref_defaultB := div_byte x8 255,
               ref_alpha := div_byte x9 255\<rparr>))))))"

definition header_body_h ::
  "nat \<Rightarrow> ref \<Rightarrow> nat \<Rightarrow> nat \<Rightarrow> hlocals \<Rightarrow> heap \<Rightarrow> hlocals outcome" where
  "header_body_h cap data faces index v =
     seq (view data (\<lambda>d. header_test d index)) (\<lambda>found.
       if found then header_match_h cap data faces index v else ret v)"

function header_loop_h ::
  "nat \<Rightarrow> ref \<Rightarrow> nat \<Rightarrow> nat \<Rightarrow> hlocals \<Rightarrow> heap \<Rightarrow> hlocals outcome" where
  "header_loop_h cap data faces index v h =
     (if index < 80 - 10 then
        (case header_body_h cap data faces index v h of
           Throw err h' \<Rightarrow> Throw err h'
         | Return v' h' \<Rightarrow> header_loop_h cap data faces (index + 1) v' h')
      else Return v h)"
  by pat_completeness auto
termination
  by (relation "measure (\<lambda>(cap, data, faces, index, v, h). 70 - index)") auto

declare header_loop_h.simps [simp del]

definition facet_color_h :: "ref \<Rightarrow> nat \<Rightarrow> hlocals \<Rightarrow> heap \<Rightarrow> hlocals outcome" where
  "facet_color_h data start v =
     (case ref_colors v of
        None \<Rightarrow> ret v
      | Some colors' \<Rightarrow>
          seq (view data (\<lambda>d. getUint16 d (start + 48) True)) (\<lambda>packedColor.
            if packedColor AND 0x8000 = 0 then
              ret (v\<lparr>ref_r := div_u16 (packedColor AND 0x1F) 31,
                      ref_g := div_u16 (drop_bit 5 packedColor AND 0x1F) 31,
                      ref_b := div_u16 (drop_bit 10 packedColor AND 0x1F) 31\<rparr>)
            else
              ret (v\<lparr>ref_r := ref_defaultR v,
                      ref_g := ref_defaultG v,
                      ref_b := ref_defaultB v\<rparr>)))"

definition vertex_body_h ::
  "ref \<Rightarrow> ref \<Rightarrow> ref \<Rightarrow> nat \<Rightarrow> nat \<Rightarrow> number \<times> number \<times> number \<Rightarrow> nat \<Rightarrow> hlocals \<Rightarrow>
   heap \<Rightarrow> hlocals outcome" where
  "vertex_body_h data vertices normals' start face normal i v =
     (let vertexstart = start + i * 12;
          componentIdx = (face * 3 * 3) + ((i - 1) * 3)
      in seq (view data (\<lambda>d. getFloat32 d vertexstart True)) (\<lambda>x.
         seq (store vertices componentIdx x) (\<lambda>_.
         seq (view data (\<lambda>d. getFloat32 d (vertexstart + 4) True)) (\<lambda>y.
         seq (store vertices (componentIdx + 1) y) (\<lambda>_.
         seq (view data (\<lambda>d. getFloat32 d (vertexstart + 8) True)) (\<lambda>z.
         seq (store vertices (componentIdx + 2) z) (\<lambda>_.
         seq (store normals' componentIdx (fst normal)) (\<lambda>_.
         seq (store normals' (componentIdx + 1) (fst (snd normal))) (\<lambda>_.
         seq (store normals' (componentIdx + 2) (snd (snd normal))) (\<lambda>_.
           (case ref_colors v of
              None \<Rightarrow> ret v
            | Some colors' \<Rightarrow>
                seq (store colors' componentIdx (ref_r v)) (\<lambda>_.
                seq (store colors' (componentIdx + 1) (ref_g v)) (\<lambda>_.
                seq (store colors' (componentIdx + 2) (ref_b v)) (\<lambda>_.
                  ret v))))))))))))))"

function vertex_loop_h ::
  "ref \<Rightarrow> ref \<Rightarrow> ref \<Rightarrow> nat \<Rightarrow> nat \<Rightarrow> number \<times> number \<times> number \<Rightarrow> nat \<Rightarrow> hlocals \<Rightarrow>
   heap \<Rightarrow> hlocals outcome" where
  "vertex_loop_h data vertices normals' start face normal i v h =
     (if i \<le> 3 then
        (case vertex_body_h data vertices normals' start face normal i v h of
           Throw err h' \<Rightarrow> Throw err h'
         | Return v' h' \<Rightarrow> vertex_loop_h data vertices normals' start face normal (i + 1) v' h')
      else Return v h)"
  by pat_completeness auto
termination
  by (relation "measure (\<lambda>(data, vertices, normals', start, face, normal, i, v, h). 4 - i)") auto

declare vertex_loop_h.simps [simp del]

definition facet_body_h :: "ref \<Rightarrow> ref \<Rightarrow> ref \<Rightarrow> nat \<Rightarrow> hlocals \<Rightarrow> heap \<Rightarrow> hlocals outcome" where
  "facet_body_h data vertices normals' face v =
     (let start = dataOffset + face * faceLength
      in seq (view data (\<lambda>d. getFloat32 d start True)) (\<lambda>normalX.
         seq (view data (\<lambda>d. getFloat32 d (start + 4) True)) (\<lambda>normalY.
         seq (view data (\<lambda>d. getFloat32 d (start + 8) True)) (\<lambda>normalZ.
         seq (facet_color_h data start v) (\<lambda>v'.
           vertex_loop_h data vertices normals' start face (normalX, normalY, normalZ) 1 v')))))"

function facet_loop_h ::
  "ref \<Rightarrow> ref \<Rightarrow> ref \<Rightarrow> nat \<Rightarrow> nat \<Rightarrow> hlocals \<Rightarrow> heap \<Rightarrow> hlocals outcome" where
  "facet_loop_h data vertices normals' faces face v h =
     (if face < faces then
        (case facet_body_h data vertices normals' face v h of
           Throw err h' \<Rightarrow> Throw err h'
         | Return v' h' \<Rightarrow> facet_loop_h data vertices normals' faces (face + 1) v' h')
      else Return v h)"
  by pat_completeness auto
termination
  by (relation "measure (\<lambda>(data, vertices, normals', faces, face, v, h). faces - face)") auto

declare facet_loop_h.simps [simp del]

text \<open>The returned object holds the references of its arrays.\<close>

record ModelRefs =
  at_hasColors :: bool
  at_position :: ref
  at_normals :: ref
  at_colors :: "ref option"
  at_alpha :: "number option"

definition result_of_h :: "ref \<Rightarrow> ref \<Rightarrow> hlocals \<Rightarrow> ModelRefs" where
  "result_of_h vertices normals' v =
     (case (if ref_hasColors v then ref_colors v else None) of
        Some colors' \<Rightarrow>
          \<lparr>at_hasColors = ref_hasColors v, at_position = vertices, at_normals = normals',
           at_colors = Some colors', at_alpha = Some (ref_alpha v)\<rparr>
      | None \<Rightarrow>
          \<lparr>at_hasColors = ref_hasColors v, at_position = vertices, at_normals = normals',
           at_colors = None, at_alpha = None\<rparr>)"

definition parse_h :: "nat \<Rightarrow> ref \<Rightarrow> heap \<Rightarrow> ModelRefs outcome" where
  "parse_h cap data =
     seq (view data (\<lambda>d. getUint32 d 80 True)) (\<lambda>w.
       let faces = unat w
       in seq (header_loop_h cap data faces 0 init_hlocals) (\<lambda>v0.
          seq (alloc_Float32Array cap (faces * 3 * 3)) (\<lambda>vertices.
          seq (alloc_Float32Array cap (faces * 3 * 3)) (\<lambda>normals'.
          seq (facet_loop_h data vertices normals' faces 0 v0) (\<lambda>v2.
            ret (result_of_h vertices normals' v2))))))"

text \<open>
  What a caller sees of an outcome: the exception, or the returned object with the
  contents of its arrays read from the heap.
\<close>

definition snapshot :: "heap \<Rightarrow> ModelRefs \<Rightarrow> ModelData" where
  "snapshot h r =
     \<lparr>hasColors = at_hasColors r, position = floats_of h (at_position r),
      normals = floats_of h (at_normals r), colors = map_option (floats_of h) (at_colors r),
      alpha = at_alpha r\<rparr>"

definition observe :: "ModelRefs outcome \<Rightarrow> error + ModelData" where
  "observe out = (case out of Throw err h \<Rightarrow> Inl err | Return r h \<Rightarrow> Inr (snapshot h r))"

text \<open>The heap locals with the arrays read from the heap are the locals of \<open>parse\<close>.\<close>

definition abs_locals :: "heap \<Rightarrow> number list \<Rightarrow> number list \<Rightarrow> hlocals \<Rightarrow> locals" where
  "abs_locals h vs ns v =
     \<lparr>var_r = ref_r v, var_g = ref_g v, var_b = ref_b v, var_hasColors = ref_hasColors v,
      var_defaultR = ref_defaultR v, var_defaultG = ref_defaultG v,
      var_defaultB = ref_defaultB v, var_alpha = ref_alpha v,
      var_colors = map_option (floats_of h) (ref_colors v),
      var_vertices = vs, var_normals = ns\<rparr>"

text \<open>
  A heap extends another when the objects of the first are still there, unchanged; two
  heaps are the same below \<open>n\<close> when they hold the same objects at the references below
  \<open>n\<close>. The typed arrays of the loader are typed arrays of the heap, at references from
  \<open>n\<close> on, apart from one another.
\<close>

definition extends :: "heap \<Rightarrow> heap \<Rightarrow> bool" where
  "extends h h' \<longleftrightarrow> length h \<le> length h' \<and> (\<forall>a<length h. h' ! a = h ! a)"

definition same_below :: "nat \<Rightarrow> heap \<Rightarrow> heap \<Rightarrow> bool" where
  "same_below n h h' \<longleftrightarrow> n \<le> length h \<and> n \<le> length h' \<and> (\<forall>a<n. h' ! a = h ! a)"

definition is_array :: "heap \<Rightarrow> ref \<Rightarrow> bool" where
  "is_array h a \<longleftrightarrow> a < length h \<and> (\<exists>xs. h ! a = Float32Array xs)"

definition header_inv :: "nat \<Rightarrow> ref \<Rightarrow> byte list \<Rightarrow> heap \<Rightarrow> hlocals \<Rightarrow> bool" where
  "header_inv n data bs h v \<longleftrightarrow>
     data < n \<and> n \<le> length h \<and> h ! data = ArrayBuffer bs \<and>
     (\<forall>c. ref_colors v = Some c \<longrightarrow> n \<le> c \<and> is_array h c)"

definition facet_inv ::
  "nat \<Rightarrow> ref \<Rightarrow> byte list \<Rightarrow> ref \<Rightarrow> ref \<Rightarrow> heap \<Rightarrow> hlocals \<Rightarrow> bool" where
  "facet_inv n data bs vertices normals' h v \<longleftrightarrow>
     data < n \<and> n \<le> length h \<and> h ! data = ArrayBuffer bs \<and>
     n \<le> vertices \<and> n \<le> normals' \<and> vertices \<noteq> normals' \<and>
     is_array h vertices \<and> is_array h normals' \<and>
     (\<forall>c. ref_colors v = Some c \<longrightarrow>
        n \<le> c \<and> c \<noteq> vertices \<and> c \<noteq> normals' \<and> is_array h c)"

text \<open>
  A heap outcome corresponds to a result of the loader on bytes: the same exception, or
  locals that are the returned ones read from the heap, with the invariant kept; and the
  heap is the same below \<open>n\<close>.
\<close>

definition corres ::
  "(heap \<Rightarrow> hlocals \<Rightarrow> bool) \<Rightarrow> (heap \<Rightarrow> hlocals \<Rightarrow> locals) \<Rightarrow> nat \<Rightarrow> heap \<Rightarrow>
   hlocals outcome \<Rightarrow> error + locals \<Rightarrow> bool" where
  "corres I A n h out res \<longleftrightarrow>
     (case out of
        Throw err h' \<Rightarrow> res = Inl err \<and> same_below n h h'
      | Return v' h' \<Rightarrow> res = Inr (A h' v') \<and> same_below n h h' \<and> I h' v')"

definition abs_header :: "heap \<Rightarrow> hlocals \<Rightarrow> locals" where
  "abs_header h v = abs_locals h [] [] v"

definition abs_facet :: "ref \<Rightarrow> ref \<Rightarrow> heap \<Rightarrow> hlocals \<Rightarrow> locals" where
  "abs_facet vertices normals' h v = abs_locals h (floats_of h vertices) (floats_of h normals') v"

section \<open>Lemmas\<close>

lemma and_then_Inl [simp]: "and_then (Inl e) f = Inl e"
  by (simp add: and_then_def)

lemma and_then_Inr [simp]: "and_then (Inr x) f = f x"
  by (simp add: and_then_def)

lemma and_then_eq_Inr:
  "and_then m f = Inr y \<longleftrightarrow> (\<exists>x. m = Inr x \<and> f x = Inr y)"
  by (cases m) simp_all

lemma error_is_RangeError: "(e :: error) = RangeError"
  by (cases e) simp

subsection \<open>Rounding\<close>

lemma powi_pos: "0 < (2::rat) powi k"
  by (simp add: zero_less_power_int)

lemma powi_le: "j \<le> k \<Longrightarrow> (2::rat) powi j \<le> 2 powi k"
  by (rule power_int_increasing) simp_all

lemma powi_less: "j < k \<Longrightarrow> (2::rat) powi j < 2 powi k"
  by (rule power_int_strict_increasing) simp_all

lemma powi_succ: "(2::rat) powi (k + 1) = 2 * 2 powi k"
  by (simp add: power_int_add)

lemma ilog2_unique:
  assumes "(2::rat) powi j \<le> x" "x < 2 powi (j + 1)" "2 powi k \<le> x" "x < 2 powi (k + 1)"
  shows "j = k"
proof (rule ccontr)
  assume "j \<noteq> k"
  then consider "j + 1 \<le> k" | "k + 1 \<le> j" by linarith
  then show False
  proof cases
    case 1
    from powi_le [OF 1] assms(2,3) show False by simp
  next
    case 2
    from powi_le [OF 2] assms(1,4) show False by simp
  qed
qed

lemma bitlen_powi:
  assumes "0 < a"
  shows "(2::rat) powi (bitlen a - 1) \<le> of_int a" "of_int a < (2::rat) powi bitlen a"
proof -
  from bitlen_bounds [OF assms] have b: "2 ^ nat (bitlen a - 1) \<le> a" "a < 2 ^ nat (bitlen a)"
    by simp_all
  have ge: "1 \<le> bitlen a" using assms bitlen_eq_zero_iff [of a] bitlen_nonneg [of a] by linarith
  have "(of_int (2 ^ nat (bitlen a - 1)) :: rat) \<le> of_int a" using b(1) by (simp only: of_int_le_iff)
  then show "(2::rat) powi (bitlen a - 1) \<le> of_int a"
    using ge by (simp add: power_int_nonneg_exp)
  have "(of_int a :: rat) < of_int (2 ^ nat (bitlen a))" using b(2) by (simp only: of_int_less_iff)
  then show "of_int a < (2::rat) powi bitlen a"
    using ge by (simp add: power_int_nonneg_exp)
qed

lemma ilog2_bounds:
  assumes "0 < x"
  shows "2 powi ilog2 x \<le> x \<and> x < 2 powi (ilog2 x + 1)"
proof -
  obtain a b where q: "quotient_of x = (a, b)" by (cases "quotient_of x") auto
  have b: "0 < b" using quotient_of_denom_pos [OF q] .
  have x: "x = of_int a / of_int b" using quotient_of_div [OF q] .
  have a: "0 < a" using assms b unfolding x by (simp add: zero_less_divide_iff)
  define k where "k = bitlen a - bitlen b"
  note ba = bitlen_powi [OF a] and bb = bitlen_powi [OF b]
  have bpos: "(0::rat) < of_int b" using b by simp
  have up: "x < 2 powi (k + 1)"
  proof -
    have "x * of_int b = of_int a" using bpos unfolding x by simp
    also have "\<dots> < 2 powi bitlen a" by (rule ba(2))
    also have "\<dots> = 2 powi (k + 1) * 2 powi (bitlen b - 1)"
      unfolding k_def by (simp add: power_int_add [symmetric])
    also have "\<dots> \<le> 2 powi (k + 1) * of_int b"
      using bb(1) powi_pos [of "k + 1"] by simp
    finally show ?thesis using bpos by simp
  qed
  have lo: "(2::rat) powi (k - 1) \<le> x"
  proof -
    have "(2::rat) powi (k - 1) * of_int b \<le> 2 powi (k - 1) * 2 powi bitlen b"
      using bb(2) powi_pos [of "k - 1"] by simp
    also have "\<dots> = 2 powi (bitlen a - 1)"
      unfolding k_def by (simp add: power_int_add [symmetric])
    also have "\<dots> \<le> of_int a" by (rule ba(1))
    also have "\<dots> = x * of_int b" using bpos unfolding x by simp
    finally show ?thesis using bpos by simp
  qed
  have i: "ilog2 x = (if 2 powi k \<le> x then k else k - 1)"
    by (simp add: ilog2_def q k_def Let_def)
  show ?thesis
  proof (cases "2 powi k \<le> x")
    case True
    then show ?thesis using up by (simp add: i)
  next
    case False
    then show ?thesis using lo by (simp add: i)
  qed
qed

lemma ilog2_eqI:
  assumes "2 powi k \<le> x" "x < 2 powi (k + 1)"
  shows "ilog2 x = k"
proof -
  have "0 < x" using powi_pos [of k] assms(1) by (rule less_le_trans)
  from ilog2_bounds [OF this] show ?thesis
    using assms by (intro ilog2_unique [of _ x]) simp_all
qed

lemma round_half_even_of_int [simp]: "round_half_even (of_int n) = n"
  by (simp add: round_half_even_def)

lemma round_binary_eval:
  assumes "2 powi e \<le> x" "x < 2 powi (e + 1)" "emin \<le> e"
    and "round_half_even (x / 2 powi (e - int p + 1)) = n" "n \<noteq> 0"
    and "of_int n * 2 powi (e - int p + 1) < (2::rat) powi (emax + 1)"
  shows "round_binary p emin emax x = Num (of_int n * 2 powi (e - int p + 1))"
    and "round_binary p emin emax (- x) = Num (- (of_int n * 2 powi (e - int p + 1)))"
proof -
  have pos: "0 < x" using powi_pos [of e] assms(1) by (rule less_le_trans)
  have l: "ilog2 x = e" using assms(1,2) by (rule ilog2_eqI)
  have m: "max (ilog2 x) emin = e" using l assms(3) by simp
  show "round_binary p emin emax x = Num (of_int n * 2 powi (e - int p + 1))"
    using pos assms(4,5,6) by (simp add: round_binary_def Let_def m)
  show "round_binary p emin emax (- x) = Num (- (of_int n * 2 powi (e - int p + 1)))"
    using pos assms(4,5,6) by (simp add: round_binary_def Let_def m)
qed

lemma round_binary_subnormal:
  assumes "0 < M" "x = of_int M * 2 powi (emin - int p + 1)" "M < 2 ^ (p - 1)" "0 < p"
    "emin \<le> emax"
  shows "round_binary p emin emax x = Num x" and "round_binary p emin emax (- x) = Num (- x)"
proof -
  define u :: rat where "u = 2 powi (emin - int p + 1)"
  have u: "0 < u" unfolding u_def by (rule powi_pos)
  have pos: "0 < x" using assms(1) u unfolding assms(2) u_def [symmetric] by simp
  have "of_int M < (of_int (2 ^ (p - 1)) :: rat)" using assms(3) by (simp only: of_int_less_iff)
  then have "x < 2 ^ (p - 1) * u" using u unfolding assms(2) u_def [symmetric] by simp
  also have "\<dots> = 2 powi emin"
    using assms(4) unfolding u_def
    by (simp add: power_int_add [symmetric] power_int_of_nat [symmetric] of_nat_diff
        del: power_int_of_nat)
  finally have lt: "x < 2 powi emin" .
  have "ilog2 x < emin"
  proof (rule ccontr)
    assume "\<not> ilog2 x < emin"
    then have "(2::rat) powi emin \<le> 2 powi ilog2 x" by (intro powi_le) simp
    with ilog2_bounds [OF pos] lt show False by simp
  qed
  then have m: "max (ilog2 x) emin = emin" by simp
  have d: "x / u = of_int M" using u unfolding assms(2) u_def [symmetric] by simp
  have v: "of_int M * u = x" unfolding assms(2) u_def ..
  have "x < 2 powi (emax + 1)" using lt powi_le [of emin "emax + 1"] assms(5) by simp
  then show "round_binary p emin emax x = Num x" "round_binary p emin emax (- x) = Num (- x)"
    using pos assms(1)
    by (simp_all add: round_binary_def Let_def m u_def [symmetric] d v)
qed

lemma round_binary_normal:
  assumes "x = of_int M * 2 powi (e - int p + 1)" "2 ^ (p - 1) \<le> M" "M < 2 ^ p" "0 < p"
    "emin \<le> e" "e \<le> emax"
  shows "round_binary p emin emax x = Num x" and "round_binary p emin emax (- x) = Num (- x)"
proof -
  define u :: rat where "u = 2 powi (e - int p + 1)"
  have u: "0 < u" unfolding u_def by (rule powi_pos)
  have "(0::int) < 2 ^ (p - 1)" by simp
  then have M: "0 < M" using assms(2) by linarith
  have "(of_int (2 ^ (p - 1)) :: rat) \<le> of_int M" using assms(2) by (simp only: of_int_le_iff)
  then have "2 ^ (p - 1) * u \<le> x" using u unfolding assms(1) u_def [symmetric] by simp
  moreover have "2 ^ (p - 1) * u = 2 powi e"
    using assms(4) unfolding u_def
    by (simp add: power_int_add [symmetric] power_int_of_nat [symmetric] of_nat_diff
        del: power_int_of_nat)
  ultimately have lo: "2 powi e \<le> x" by simp
  have "of_int M < (of_int (2 ^ p) :: rat)" using assms(3) by (simp only: of_int_less_iff)
  then have "x < 2 ^ p * u" using u unfolding assms(1) u_def [symmetric] by simp
  moreover have "2 ^ p * u = 2 powi (e + 1)"
    unfolding u_def
    by (simp add: power_int_add [symmetric] power_int_of_nat [symmetric]
        del: power_int_of_nat)
  ultimately have hi: "x < 2 powi (e + 1)" by simp
  have d: "round_half_even (x / 2 powi (e - int p + 1)) = M"
    using u unfolding assms(1) u_def [symmetric] by simp
  have "x < 2 powi (emax + 1)" using hi powi_le [of "e + 1" "emax + 1"] assms(6) by simp
  then have v: "of_int M * 2 powi (e - int p + 1) < (2::rat) powi (emax + 1)"
    unfolding assms(1) .
  from round_binary_eval [OF lo hi assms(5) d _ v] M
  show "round_binary p emin emax x = Num x" "round_binary p emin emax (- x) = Num (- x)"
    unfolding assms(1) by simp_all
qed

lemma round_half_even_eqI:
  assumes "of_int n - 1 / 2 < x" "x < of_int n + 1 / 2"
  shows "round_half_even x = n"
proof -
  consider "of_int n \<le> x" | "x < of_int n" by linarith
  then show ?thesis
  proof cases
    case 1
    then have f: "\<lfloor>x\<rfloor> = n" using assms(2) by (intro floor_unique) simp_all
    show ?thesis using assms(2) by (simp add: round_half_even_def f)
  next
    case 2
    then have f: "\<lfloor>x\<rfloor> = n - 1" using assms(1) by (intro floor_unique) simp_all
    show ?thesis using assms(1) by (simp add: round_half_even_def f)
  qed
qed

lemma round_half_even_numeral [simp]: "round_half_even (numeral k) = numeral k"
  using round_half_even_of_int [of "numeral k"] by simp

lemma round_f64_128_255: "round_f64 (128 / 255) = Num (282578800148737 / 562949953421312)"
  unfolding round_f64_def
  using round_binary_eval(1) [of "-1" "128 / 255" "- 1022" 53 4521260802379792 1023]
  by (simp add: round_half_even_eqI)

lemma fround_f64_128_255:
  "fround (Num (282578800148737 / 562949953421312)) = Num (8421505 / 16777216)"
  unfolding fround_def
  using round_binary_eval(1) [of "-1" "282578800148737 / 562949953421312" "- 126" 24 8421505 127]
  by (simp add: round_half_even_eqI)

lemma round_f64_16_31: "round_f64 (16 / 31) = Num (1162219258676257 / 2251799813685248)"
  unfolding round_f64_def
  using round_binary_eval(1) [of "-1" "16 / 31" "- 1022" 53 4648877034705028 1023]
  by (simp add: round_half_even_eqI)

lemma fround_one: "fround (Num 1) = Num 1"
  unfolding fround_def
  using round_binary_eval(1) [of 0 1 "- 126" 24 8388608 127]
  by simp

lemma round_f64_one: "round_f64 1 = Num 1"
  unfolding round_f64_def
  using round_binary_eval(1) [of 0 1 "- 1022" 53 "2 ^ 52" 1023]
  by simp

lemma fround_zero: "fround (Num 0) = Num 0"
  by (simp add: fround_def round_binary_def)

lemma round_f64_zero: "round_f64 0 = Num 0"
  by (simp add: round_f64_def round_binary_def)


lemma f32_fields:
  "unat (drop_bit 23 (w :: 32 word) AND 0xFF) < 256" "unat (w AND 0x7FFFFF) < 2 ^ 23"
proof -
  have "drop_bit 23 w AND 0xFF \<le> 0xFF" by (rule word_and_le1)
  then show "unat (drop_bit 23 w AND 0xFF) < 256" by (simp add: word_le_nat_alt)
  have "w AND 0x7FFFFF \<le> 0x7FFFFF" by (rule word_and_le1)
  then show "unat (w AND 0x7FFFFF) < 2 ^ 23" by (simp add: word_le_nat_alt)
qed

lemma fround_subnormal:
  assumes "0 < m" "m < 2 ^ 23"
  shows "fround (Num (of_nat m / 2 ^ 149)) = Num (of_nat m / 2 ^ 149)"
    and "fround (Num (- (of_nat m / 2 ^ 149))) = Num (- (of_nat m / 2 ^ 149))"
proof -
  have x: "(of_nat m / 2 ^ 149 :: rat) = of_int (int m) * 2 powi (- 126 - int 24 + 1)"
    by (simp add: power_int_minus_divide)
  have M: "0 < int m" "int m < 2 ^ (24 - 1)" using assms by simp_all
  from round_binary_subnormal [OF M(1) x M(2), of 127]
  show "fround (Num (of_nat m / 2 ^ 149)) = Num (of_nat m / 2 ^ 149)"
    and "fround (Num (- (of_nat m / 2 ^ 149))) = Num (- (of_nat m / 2 ^ 149))"
    by (simp_all add: fround_def)
qed

lemma fround_normal:
  assumes "0 < e" "e < 255" "m < 2 ^ 23"
  shows "fround (Num (of_nat (2 ^ 23 + m) * 2 ^ e / 2 ^ 150)) =
           Num (of_nat (2 ^ 23 + m) * 2 ^ e / 2 ^ 150)"
    and "fround (Num (- (of_nat (2 ^ 23 + m) * 2 ^ e / 2 ^ 150))) =
           Num (- (of_nat (2 ^ 23 + m) * 2 ^ e / 2 ^ 150))"
proof -
  have "(2::rat) powi (int e - 150) = 2 powi int e / 2 powi 150"
    by (rule power_int_diff) simp
  then have p: "(2::rat) powi (int e - 150) = 2 ^ e / 2 ^ 150" by simp
  have x: "(of_nat (2 ^ 23 + m) * 2 ^ e / 2 ^ 150 :: rat) =
      of_int (int (2 ^ 23 + m)) * 2 powi ((int e - 127) - int 24 + 1)"
    using p by simp
  have M: "2 ^ (24 - 1) \<le> int (2 ^ 23 + m)" "int (2 ^ 23 + m) < 2 ^ 24"
    using assms(3) by simp_all
  have e: "- 126 \<le> int e - 127" "int e - 127 \<le> 127" using assms(1,2) by simp_all
  from round_binary_normal [OF x M _ e]
  show "fround (Num (of_nat (2 ^ 23 + m) * 2 ^ e / 2 ^ 150)) =
           Num (of_nat (2 ^ 23 + m) * 2 ^ e / 2 ^ 150)"
    and "fround (Num (- (of_nat (2 ^ 23 + m) * 2 ^ e / 2 ^ 150))) =
           Num (- (of_nat (2 ^ 23 + m) * 2 ^ e / 2 ^ 150))"
    by (simp_all add: fround_def)
qed

lemma fround_decode_f32: "fround (decode_f32 w) = decode_f32 w"
proof -
  define e where "e = unat (drop_bit 23 w AND 0xFF)"
  define m where "m = unat (w AND 0x7FFFFF)"
  note f = f32_fields [of w, folded e_def m_def]
  have d: "decode_f32 w =
      (if e = 255 then (if m = 0 then (if bit w 31 then NegInfinity else PosInfinity) else NaN)
       else if e = 0 \<and> m = 0 then (if bit w 31 then NegZero else Num 0)
       else if e = 0 then Num (if bit w 31 then - (of_nat m / 2 ^ 149) else of_nat m / 2 ^ 149)
       else Num (if bit w 31 then - (of_nat (2 ^ 23 + m) * 2 ^ e / 2 ^ 150)
                 else of_nat (2 ^ 23 + m) * 2 ^ e / 2 ^ 150))"
    by (simp add: decode_f32_def Let_def e_def m_def)
  consider "e = 255" | "e = 0" "m = 0" | "e = 0" "0 < m" | "0 < e" "e < 255"
    using f(1) by linarith
  then show ?thesis
  proof cases
    case 1
    then show ?thesis by (simp add: d fround_def)
  next
    case 2
    then show ?thesis by (simp add: d fround_def round_binary_def)
  next
    case 3
    then show ?thesis using fround_subnormal [OF 3(2) f(2)] by (simp add: d)
  next
    case 4
    then show ?thesis using fround_normal [OF 4 f(2)] by (simp add: d)
  qed
qed

subsection \<open>The loops\<close>

lemma be32_byte3: "ucast (drop_bit 24 (be32 a b c e)) = a"
  unfolding be32_def by (rule bit_word_eqI) (auto simp: bit_simps dest: bit_imp_le_length)

lemma be32_byte2: "ucast (drop_bit 16 (be32 a b c e)) = b"
  unfolding be32_def by (rule bit_word_eqI) (auto simp: bit_simps dest: bit_imp_le_length)

lemma be32_byte1: "ucast (drop_bit 8 (be32 a b c e)) = c"
  unfolding be32_def by (rule bit_word_eqI) (auto simp: bit_simps dest: bit_imp_le_length)

lemma be32_byte0: "ucast (be32 a b c e) = e"
  unfolding be32_def by (rule bit_word_eqI) (auto simp: bit_simps dest: bit_imp_le_length)

lemma be32_COLO: "be32 a b c e = 0x434F4C4F \<longleftrightarrow> a = 0x43 \<and> b = 0x4F \<and> c = 0x4C \<and> e = 0x4F"
proof
  assume h: "be32 a b c e = 0x434F4C4F"
  have "a = ucast (drop_bit 24 (0x434F4C4F :: 32 word))" using be32_byte3 [of a b c e] h by simp
  moreover have "b = ucast (drop_bit 16 (0x434F4C4F :: 32 word))" using be32_byte2 [of a b c e] h by simp
  moreover have "c = ucast (drop_bit 8 (0x434F4C4F :: 32 word))" using be32_byte1 [of a b c e] h by simp
  moreover have "e = ucast (0x434F4C4F :: 32 word)" using be32_byte0 [of a b c e] h by simp
  ultimately show "a = 0x43 \<and> b = 0x4F \<and> c = 0x4C \<and> e = 0x4F" by simp
next
  assume "a = 0x43 \<and> b = 0x4F \<and> c = 0x4C \<and> e = 0x4F"
  then show "be32 a b c e = 0x434F4C4F" by (simp add: be32_def)
qed

lemma getUint8_Inr: "off < length d \<Longrightarrow> getUint8 d off = Inr (d ! off)"
  by (simp add: getUint8_def)

lemma getUint32_be: "off + 4 \<le> length d \<Longrightarrow>
    getUint32 d off False = Inr (be32 (d ! off) (d ! (off + 1)) (d ! (off + 2)) (d ! (off + 3)))"
  by (simp add: getUint32_def be32_def Let_def)

lemma header_test_marker:
  assumes "index + 6 \<le> length d"
  shows "header_test d index = Inr (color_marker d index)"
proof -
  have r: "getUint32 d index False =
      Inr (be32 (d ! index) (d ! (index + 1)) (d ! (index + 2)) (d ! (index + 3)))"
    using assms by (simp add: getUint32_be)
  have r4: "getUint8 d (index + 4) = Inr (d ! (index + 4))"
    and r5: "getUint8 d (index + 5) = Inr (d ! (index + 5))"
    using assms by (simp_all add: getUint8_Inr)
  show ?thesis
    unfolding header_test_def r r4 r5 by (auto simp: be32_COLO color_marker_def)
qed

lemma header_match_Inr:
  assumes "index + 10 \<le> length d" "faces * 9 \<le> cap"
  shows "header_match cap d faces index s =
     Inr (s\<lparr>var_hasColors := True,
             var_colors := Some (replicate (faces * 9) (Num 0)),
             var_defaultR := div_byte (d ! (index + 6)) 255,
             var_defaultG := div_byte (d ! (index + 7)) 255,
             var_defaultB := div_byte (d ! (index + 8)) 255,
             var_alpha := div_byte (d ! (index + 9)) 255\<rparr>)"
  using assms by (simp add: header_match_def new_Float32Array_def getUint8_Inr)

lemma header_match_Inl:
  assumes "\<not> faces * 9 \<le> cap"
  shows "header_match cap d faces index s = Inl RangeError"
  using assms by (simp add: header_match_def new_Float32Array_def)

lemma header_match_InrD:
  assumes "header_match cap d faces index s = Inr s'"
  shows "faces * 9 \<le> cap"
  using assms header_match_Inl [of faces cap d index s] by auto

lemma header_match_overwrite:
  assumes "j + 10 \<le> length d" "i + 10 \<le> length d" "header_match cap d faces j s = Inr s'"
  shows "header_match cap d faces i s' = header_match cap d faces i s"
  using assms header_match_InrD [OF assms(3)] by (auto simp: header_match_Inr)

lemma header_body_cases:
  assumes "index + 10 \<le> length d"
  shows "header_body cap d faces index s =
     (if color_marker d index then header_match cap d faces index s else Inr s)"
  using assms by (simp add: header_body_def header_test_marker)

lemma header_loop_none:
  assumes "80 \<le> length d" "\<forall>j. index \<le> j \<and> j < 70 \<longrightarrow> \<not> color_marker d j"
  shows "header_loop cap d faces index s = Inr s"
  using assms
proof (induction cap d faces index s rule: header_loop.induct)
  case (1 cap d faces index s)
  show ?case
  proof (cases "index < 70")
    case True
    then have b: "header_body cap d faces index s = Inr s"
      using 1(2,3) by (simp add: header_body_cases)
    have "header_loop cap d faces (index + 1) s = Inr s"
      using 1(1) [of s] True b 1(2,3) by simp
    then show ?thesis
      using True b by (subst header_loop.simps) simp
  next
    case False
    then show ?thesis by (subst header_loop.simps) simp
  qed
qed

lemma header_loop_last_ok:
  assumes "80 \<le> length d" "index \<le> i" "i < 70" "color_marker d i"
    "\<forall>j. i < j \<and> j < 70 \<longrightarrow> \<not> color_marker d j" "faces * 9 \<le> cap"
  shows "header_loop cap d faces index s = header_match cap d faces i s"
  using assms
proof (induction cap d faces index s rule: header_loop.induct)
  case (1 cap d faces index s)
  have lt: "index < 70" using 1 by simp
  note ok = "1.prems"(6)
  show ?case
  proof (cases "index = i")
    case True
    obtain s' where m: "header_match cap d faces i s = Inr s'"
      using 1(2,4) ok by (simp add: header_match_Inr)
    have "header_loop cap d faces (i + 1) s' = Inr s'"
      using 1(2,6) by (intro header_loop_none) auto
    then show ?thesis
      using True lt m 1(2,5) by (subst header_loop.simps) (simp add: header_body_cases)
  next
    case False
    then have le: "index + 1 \<le> i" using 1(3) by simp
    obtain s' where b: "header_body cap d faces index s = Inr s'"
      using lt 1(2) ok
      by (cases "color_marker d index") (simp_all add: header_body_cases header_match_Inr)
    have ih: "header_loop cap d faces (index + 1) s' = header_match cap d faces i s'"
      using 1(1) [of s'] lt le 1(2,4,5,6) ok by simp
    have "header_match cap d faces i s' = header_match cap d faces i s"
    proof (cases "color_marker d index")
      case True
      then have "header_match cap d faces index s = Inr s'"
        using b lt 1(2) by (simp add: header_body_cases)
      then show ?thesis
        using lt 1(2,4) by (intro header_match_overwrite [where j = index]) simp_all
    next
      case False
      then show ?thesis using b lt 1(2) by (simp add: header_body_cases)
    qed
    then show ?thesis
      using lt b ih by (subst header_loop.simps) simp
  qed
qed

lemma header_loop_alloc_fails:
  assumes "80 \<le> length d" "index \<le> i" "i < 70" "color_marker d i" "\<not> faces * 9 \<le> cap"
  shows "header_loop cap d faces index s = Inl RangeError"
  using assms
proof (induction cap d faces index s rule: header_loop.induct)
  case (1 cap d faces index s)
  have lt: "index < 70" using 1 by simp
  show ?case
  proof (cases "color_marker d index")
    case True
    then have "header_body cap d faces index s = Inl RangeError"
      using lt 1(2) by (simp add: header_body_cases header_match_Inl [OF "1.prems"(5)])
    then show ?thesis using lt by (subst header_loop.simps) simp
  next
    case False
    then have b: "header_body cap d faces index s = Inr s"
      using lt 1(2) by (simp add: header_body_cases)
    have "index \<noteq> i" using False 1(5) by auto
    then have le: "index + 1 \<le> i" using 1(3) by simp
    have "header_loop cap d faces (index + 1) s = Inl RangeError"
      using 1(1) [of s] lt le b 1(2,4,5,6) by simp
    then show ?thesis using lt b by (subst header_loop.simps) simp
  qed
qed

lemma header_loop_last:
  assumes "80 \<le> length d" "index \<le> i" "i < 70" "color_marker d i"
    "\<forall>j. i < j \<and> j < 70 \<longrightarrow> \<not> color_marker d j"
  shows "header_loop cap d faces index s = header_match cap d faces i s"
proof (cases "faces * 9 \<le> cap")
  case True
  with assms show ?thesis by (rule header_loop_last_ok)
next
  case False
  from header_loop_alloc_fails [OF assms(1-4) False] header_match_Inl [OF False]
  show ?thesis by simp
qed

lemma getFloat32_Inr_iff:
  "(\<exists>v. getFloat32 d off le = Inr v) \<longleftrightarrow> off + 4 \<le> length d"
  by (auto simp: getFloat32_def getUint32_def Let_def)

lemma getFloat32_InrD: "getFloat32 d off le = Inr v \<Longrightarrow> off + 4 \<le> length d"
  using getFloat32_Inr_iff by blast

lemma getUint16_Inr_iff:
  "(\<exists>v. getUint16 d off le = Inr v) \<longleftrightarrow> off + 2 \<le> length d"
  by (auto simp: getUint16_def Let_def)

lemma fround_getFloat32: "getFloat32 d off le = Inr v \<Longrightarrow> fround v = v"
  by (auto simp: getFloat32_def and_then_eq_Inr fround_decode_f32)

lemma vertex_body_Inr:
  assumes "vertex_body d start face (nx, ny, nz) i s = Inr s'"
  shows "\<exists>x y z.
     getFloat32 d (start + i * 12) True = Inr x \<and>
     getFloat32 d (start + i * 12 + 4) True = Inr y \<and>
     getFloat32 d (start + i * 12 + 8) True = Inr z \<and>
     var_vertices s' =
       (var_vertices s)[face * 3 * 3 + (i - 1) * 3 := x, face * 3 * 3 + (i - 1) * 3 + 1 := y,
                        face * 3 * 3 + (i - 1) * 3 + 2 := z] \<and>
     var_normals s' =
       (var_normals s)[face * 3 * 3 + (i - 1) * 3 := fround nx,
                       face * 3 * 3 + (i - 1) * 3 + 1 := fround ny,
                       face * 3 * 3 + (i - 1) * 3 + 2 := fround nz] \<and>
     var_colors s' =
       map_option (\<lambda>cs. cs[face * 3 * 3 + (i - 1) * 3 := fround (var_r s),
                               face * 3 * 3 + (i - 1) * 3 + 1 := fround (var_g s),
                               face * 3 * 3 + (i - 1) * 3 + 2 := fround (var_b s)]) (var_colors s) \<and>
     var_r s' = var_r s \<and> var_g s' = var_g s \<and> var_b s' = var_b s \<and> same_header s s'"
  using assms
  by (cases "var_colors s")
     (auto simp: vertex_body_def Let_def and_then_eq_Inr same_header_def fround_getFloat32)

lemma vertex_loop_unroll:
  "vertex_loop d start face n 1 t =
      and_then (vertex_body d start face n 1 t) (\<lambda>s1.
      and_then (vertex_body d start face n 2 s1) (vertex_body d start face n 3))"
proof -
  have u4: "vertex_loop d start face n 4 t = Inr t" for t
    by (subst vertex_loop.simps) simp
  have u3: "vertex_loop d start face n 3 = vertex_body d start face n 3"
  proof (rule ext)
    fix t show "vertex_loop d start face n 3 t = vertex_body d start face n 3 t"
      by (subst vertex_loop.simps) (cases "vertex_body d start face n 3 t"; simp add: u4)
  qed
  have u2: "vertex_loop d start face n 2 =
      (\<lambda>t. and_then (vertex_body d start face n 2 t) (vertex_body d start face n 3))"
  proof (rule ext)
    fix t show "vertex_loop d start face n 2 t =
      and_then (vertex_body d start face n 2 t) (vertex_body d start face n 3)"
      by (subst vertex_loop.simps) (simp add: u3)
  qed
  show ?thesis
    by (subst vertex_loop.simps) (simp add: u2 [unfolded numeral_2_eq_2] numeral_2_eq_2)
qed

lemma vertex_loop_Inr:
  assumes "vertex_loop d start face n 1 s = Inr s'"
  shows "\<exists>s1 s2. vertex_body d start face n 1 s = Inr s1 \<and>
     vertex_body d start face n 2 s1 = Inr s2 \<and> vertex_body d start face n 3 s2 = Inr s'"
  using assms unfolding vertex_loop_unroll by (auto simp: and_then_eq_Inr)

lemma length_upd9 [simp]: "length (upd9 xs c v) = length xs"
  by (simp add: upd9_def)

lemma upd9_outside: "idx < c \<or> c + 9 \<le> idx \<Longrightarrow> upd9 xs c v ! idx = xs ! idx"
  by (cases "idx < c") (simp_all add: upd9_def)

lemma less_9_cases:
  "(k::nat) < 9 \<Longrightarrow> k = 0 \<or> k = 1 \<or> k = 2 \<or> k = 3 \<or> k = 4 \<or> k = 5 \<or> k = 6 \<or> k = 7 \<or> k = 8"
  by arith

lemma upd9_inside:
  assumes "k < 9" "c + 9 \<le> length xs"
  shows "upd9 xs c v ! (c + k) = v k"
  using less_9_cases [OF assms(1)] assms(2) by (elim disjE) (simp_all add: upd9_def)

lemma facet_rgb_simps:
  "facet_rgb s p 0 = (if p AND 0x8000 = 0 then div_u16 (p AND 0x1F) 31 else var_defaultR s)"
  "facet_rgb s p 1 = (if p AND 0x8000 = 0 then div_u16 (drop_bit 5 p AND 0x1F) 31 else var_defaultG s)"
  "facet_rgb s p 2 = (if p AND 0x8000 = 0 then div_u16 (drop_bit 10 p AND 0x1F) 31 else var_defaultB s)"
  "facet_rgb s p (Suc 0) =
     (if p AND 0x8000 = 0 then div_u16 (drop_bit 5 p AND 0x1F) 31 else var_defaultG s)"
  by (simp_all add: facet_rgb_def)

lemma facet_color_Inr:
  assumes "facet_color d start s = Inr s0"
  shows "var_vertices s0 = var_vertices s \<and> var_normals s0 = var_normals s \<and>
     var_colors s0 = var_colors s \<and> same_header s s0 \<and>
     (var_colors s \<noteq> None \<longrightarrow>
        (\<exists>p. getUint16 d (start + 48) True = Inr p \<and> var_r s0 = facet_rgb s p 0 \<and>
           var_g s0 = facet_rgb s p 1 \<and> var_b s0 = facet_rgb s p 2))"
proof (cases "var_colors s")
  case None
  then have "s0 = s" using assms by (simp add: facet_color_def)
  then show ?thesis using None by (simp add: same_header_def)
next
  case (Some cs)
  then obtain p where p: "getUint16 d (start + 48) True = Inr p"
    and s0: "s0 = (if p AND 0x8000 = 0 then
                s\<lparr>var_r := div_u16 (p AND 0x1F) 31,
                  var_g := div_u16 (drop_bit 5 p AND 0x1F) 31,
                  var_b := div_u16 (drop_bit 10 p AND 0x1F) 31\<rparr>
              else s\<lparr>var_r := var_defaultR s, var_g := var_defaultG s, var_b := var_defaultB s\<rparr>)"
    using assms unfolding facet_color_def by (auto simp: and_then_eq_Inr split: if_splits)
  have "var_r s0 = facet_rgb s p 0 \<and> var_g s0 = facet_rgb s p 1 \<and> var_b s0 = facet_rgb s p 2"
    unfolding facet_rgb_simps(1,2,3) s0 by simp
  moreover have "var_vertices s0 = var_vertices s \<and> var_normals s0 = var_normals s \<and>
     var_colors s0 = var_colors s \<and> same_header s s0"
    unfolding s0 same_header_def by simp
  ultimately show ?thesis using p by blast
qed

lemma facet_body_Inr:
  assumes "facet_body d face s = Inr s'"
  shows "\<exists>vn vv vc.
     (\<forall>k<9. Inr (vn k) = getFloat32 d (84 + face * 50 + 4 * (k mod 3)) True) \<and>
     (\<forall>k<9. Inr (vv k) = getFloat32 d (84 + face * 50 + 12 + 4 * k) True) \<and>
     (var_colors s \<noteq> None \<longrightarrow>
        (\<exists>p. getUint16 d (84 + face * 50 + 48) True = Inr p \<and>
           (\<forall>k<9. vc k = fround (facet_rgb s p (k mod 3))))) \<and>
     var_normals s' = upd9 (var_normals s) (face * 9) vn \<and>
     var_vertices s' = upd9 (var_vertices s) (face * 9) vv \<and>
     var_colors s' = map_option (\<lambda>cs. upd9 cs (face * 9) vc) (var_colors s) \<and>
     same_header s s'"
proof -
  define start where "start = 84 + face * 50"
  from assms obtain nx ny nz s0 where
    n: "getFloat32 d start True = Inr nx" "getFloat32 d (start + 4) True = Inr ny"
       "getFloat32 d (start + 8) True = Inr nz"
    and c: "facet_color d start s = Inr s0"
    and v: "vertex_loop d start face (nx, ny, nz) 1 s0 = Inr s'"
    by (auto simp: facet_body_def Let_def and_then_eq_Inr dataOffset_def faceLength_def start_def)
  have fn: "fround nx = nx" "fround ny = ny" "fround nz = nz"
    using n by (simp_all add: fround_getFloat32)
  from vertex_loop_Inr [OF v] obtain s1 s2 where
    b1: "vertex_body d start face (nx, ny, nz) 1 s0 = Inr s1" and
    b2: "vertex_body d start face (nx, ny, nz) 2 s1 = Inr s2" and
    b3: "vertex_body d start face (nx, ny, nz) 3 s2 = Inr s'" by blast
  from vertex_body_Inr [OF b1] obtain x1 y1 z1 where
    r1: "getFloat32 d (start + 12) True = Inr x1" "getFloat32 d (start + 16) True = Inr y1"
        "getFloat32 d (start + 20) True = Inr z1"
    and e1: "var_vertices s1 = (var_vertices s0)[face * 9 := x1, face * 9 + 1 := y1, face * 9 + 2 := z1]"
      "var_normals s1 = (var_normals s0)[face * 9 := nx, face * 9 + 1 := ny, face * 9 + 2 := nz]"
      "var_colors s1 = map_option (\<lambda>cs. cs[face * 9 := fround (var_r s0),
          face * 9 + 1 := fround (var_g s0), face * 9 + 2 := fround (var_b s0)]) (var_colors s0)"
      "var_r s1 = var_r s0" "var_g s1 = var_g s0" "var_b s1 = var_b s0" "same_header s0 s1"
    by (auto simp: add.commute mult.commute fn)
  from vertex_body_Inr [OF b2] obtain x2 y2 z2 where
    r2: "getFloat32 d (start + 24) True = Inr x2" "getFloat32 d (start + 28) True = Inr y2"
        "getFloat32 d (start + 32) True = Inr z2"
    and e2: "var_vertices s2 = (var_vertices s1)[face * 9 + 3 := x2, face * 9 + 4 := y2, face * 9 + 5 := z2]"
      "var_normals s2 = (var_normals s1)[face * 9 + 3 := nx, face * 9 + 4 := ny, face * 9 + 5 := nz]"
      "var_colors s2 = map_option (\<lambda>cs. cs[face * 9 + 3 := fround (var_r s1),
          face * 9 + 4 := fround (var_g s1), face * 9 + 5 := fround (var_b s1)]) (var_colors s1)"
      "var_r s2 = var_r s1" "var_g s2 = var_g s1" "var_b s2 = var_b s1" "same_header s1 s2"
    by (auto simp: add.commute mult.commute fn)
  from vertex_body_Inr [OF b3] obtain x3 y3 z3 where
    r3: "getFloat32 d (start + 36) True = Inr x3" "getFloat32 d (start + 40) True = Inr y3"
        "getFloat32 d (start + 44) True = Inr z3"
    and e3: "var_vertices s' = (var_vertices s2)[face * 9 + 6 := x3, face * 9 + 7 := y3, face * 9 + 8 := z3]"
      "var_normals s' = (var_normals s2)[face * 9 + 6 := nx, face * 9 + 7 := ny, face * 9 + 8 := nz]"
      "var_colors s' = map_option (\<lambda>cs. cs[face * 9 + 6 := fround (var_r s2),
          face * 9 + 7 := fround (var_g s2), face * 9 + 8 := fround (var_b s2)]) (var_colors s2)"
      "same_header s2 s'"
    by (auto simp: add.commute mult.commute fn)
  note fc = facet_color_Inr [OF c]
  define vn where "vn = (\<lambda>k::nat. [nx, ny, nz] ! (k mod 3))"
  define vv where "vv = (\<lambda>k::nat. [x1, y1, z1, x2, y2, z2, x3, y3, z3] ! k)"
  define vc where "vc = (\<lambda>k::nat. fround ([var_r s0, var_g s0, var_b s0] ! (k mod 3)))"
  have 1: "\<forall>k<9. Inr (vn k) = getFloat32 d (start + 4 * (k mod 3)) True"
  proof (intro allI impI)
    fix k :: nat assume "k < 9"
    from less_9_cases [OF this] show "Inr (vn k) = getFloat32 d (start + 4 * (k mod 3)) True"
      by (elim disjE) (simp_all add: vn_def n)
  qed
  have 2: "\<forall>k<9. Inr (vv k) = getFloat32 d (start + 12 + 4 * k) True"
  proof (intro allI impI)
    fix k :: nat assume "k < 9"
    from less_9_cases [OF this] show "Inr (vv k) = getFloat32 d (start + 12 + 4 * k) True"
      by (elim disjE) (simp_all add: vv_def r1 r2 r3 add.commute)
  qed
  have 3: "var_colors s \<noteq> None \<longrightarrow>
        (\<exists>p. getUint16 d (start + 48) True = Inr p \<and>
           (\<forall>k<9. vc k = fround (facet_rgb s p (k mod 3))))"
  proof
    assume "var_colors s \<noteq> None"
    with fc obtain p where p: "getUint16 d (start + 48) True = Inr p" "var_r s0 = facet_rgb s p 0"
      "var_g s0 = facet_rgb s p 1" "var_b s0 = facet_rgb s p 2" by blast
    have "\<forall>k<9. vc k = fround (facet_rgb s p (k mod 3))"
    proof (intro allI impI)
      fix k :: nat assume "k < 9"
      from less_9_cases [OF this] show "vc k = fround (facet_rgb s p (k mod 3))"
        by (elim disjE) (simp_all add: vc_def p)
    qed
    with p(1) show "\<exists>p. getUint16 d (start + 48) True = Inr p \<and>
        (\<forall>k<9. vc k = fround (facet_rgb s p (k mod 3)))"
      by blast
  qed
  have 4: "var_normals s' = upd9 (var_normals s) (face * 9) vn"
    using fc by (simp add: e1 e2 e3 upd9_def vn_def)
  have 5: "var_vertices s' = upd9 (var_vertices s) (face * 9) vv"
    using fc by (simp add: e1 e2 e3 upd9_def vv_def)
  have 6: "var_colors s' = map_option (\<lambda>cs. upd9 cs (face * 9) vc) (var_colors s)"
    using fc by (cases "var_colors s") (simp_all add: e1 e2 e3 upd9_def vc_def)
  have 7: "same_header s s'"
    using fc e1(7) e2(7) e3(4) by (simp add: same_header_def)
  note facts = 1 2 3 4 5 6 7
  show ?thesis
    by (intro exI [of _ vn] exI [of _ vv] exI [of _ vc] conjI facts [unfolded start_def])
qed

lemma facet_rgb_same_header: "same_header s s' \<Longrightarrow> facet_rgb s' p k = facet_rgb s p k"
  by (simp add: facet_rgb_def same_header_def)

lemma same_header_refl: "same_header s s"
  by (simp add: same_header_def)

lemma same_header_trans: "same_header s s1 \<Longrightarrow> same_header s1 s' \<Longrightarrow> same_header s s'"
  by (simp add: same_header_def)

lemma agree_below_refl: "agree_below n s s"
  by (simp add: agree_below_def)

lemma agree_below_trans:
  assumes "agree_below n s s1" "agree_below n' s1 s'" "n \<le> n'"
  shows "agree_below n s s'"
proof -
  have c: "(var_colors s' = None \<longleftrightarrow> var_colors s = None)"
    using assms(1,2) by (simp add: agree_below_def)
  have "var_normals s' ! idx = var_normals s ! idx \<and>
        var_vertices s' ! idx = var_vertices s ! idx \<and>
        (\<forall>cs cs'. var_colors s = Some cs \<longrightarrow> var_colors s' = Some cs' \<longrightarrow>
           cs' ! idx = cs ! idx)" if "idx < n" for idx
  proof -
    have i': "idx < n'" using that assms(3) by simp
    have a: "var_normals s1 ! idx = var_normals s ! idx \<and>
        var_vertices s1 ! idx = var_vertices s ! idx \<and>
        (\<forall>cs cs'. var_colors s = Some cs \<longrightarrow> var_colors s1 = Some cs' \<longrightarrow>
           cs' ! idx = cs ! idx)"
      using assms(1) that unfolding agree_below_def by blast
    have b: "var_normals s' ! idx = var_normals s1 ! idx \<and>
        var_vertices s' ! idx = var_vertices s1 ! idx \<and>
        (\<forall>cs cs'. var_colors s1 = Some cs \<longrightarrow> var_colors s' = Some cs' \<longrightarrow>
           cs' ! idx = cs ! idx)"
      using assms(2) i' unfolding agree_below_def by blast
    have n1: "(var_colors s1 = None \<longleftrightarrow> var_colors s = None)"
      using assms(1) by (simp add: agree_below_def)
    show ?thesis
    proof (intro conjI allI impI)
      show "var_normals s' ! idx = var_normals s ! idx" using a b by simp
      show "var_vertices s' ! idx = var_vertices s ! idx" using a b by simp
      fix cs cs' assume h: "var_colors s = Some cs" "var_colors s' = Some cs'"
      then obtain cs1 where c1: "var_colors s1 = Some cs1" using n1 by (cases "var_colors s1") auto
      show "cs' ! idx = cs ! idx" using a b h c1 by simp
    qed
  qed
  with c show ?thesis unfolding agree_below_def by blast
qed

lemma facet_ok_agree:
  assumes "facet_ok d f s1" "agree_below (f * 9 + 9) s1 s'" "same_header s1 s'"
  shows "facet_ok d f s'"
proof -
  have idx: "f * 9 + k < f * 9 + 9" if "k < 9" for k :: nat using that by simp
  have n: "\<forall>k<9. var_normals s' ! (f * 9 + k) = var_normals s1 ! (f * 9 + k)"
    and v: "\<forall>k<9. var_vertices s' ! (f * 9 + k) = var_vertices s1 ! (f * 9 + k)"
    using assms(2) idx unfolding agree_below_def by blast+
  have c: "\<exists>p. getUint16 d (84 + f * 50 + 48) True = Inr p \<and>
           (\<forall>k<9. cs' ! (f * 9 + k) = fround (facet_rgb s' p (k mod 3)))"
    if h: "var_colors s' = Some cs'" for cs'
  proof -
    have "var_colors s1 \<noteq> None" using assms(2) h by (simp add: agree_below_def)
    then obtain cs where cs: "var_colors s1 = Some cs" by auto
    then obtain p where p: "getUint16 d (84 + f * 50 + 48) True = Inr p"
      "\<forall>k<9. cs ! (f * 9 + k) = fround (facet_rgb s1 p (k mod 3))"
      using assms(1) unfolding facet_ok_def by blast
    have "\<forall>k<9. cs' ! (f * 9 + k) = cs ! (f * 9 + k)"
      using assms(2) idx cs h unfolding agree_below_def by blast
    then have "\<forall>k<9. cs' ! (f * 9 + k) = fround (facet_rgb s' p (k mod 3))"
      using p(2) facet_rgb_same_header [OF assms(3)] by simp
    with p(1) show ?thesis by blast
  qed
  show ?thesis
    unfolding facet_ok_def using assms(1) n v c by (simp add: facet_ok_def)
qed

lemma facet_body_post:
  assumes "facet_body d f s = Inr s'" "arrays_sized n s" "f * 9 + 9 \<le> n"
  shows "same_header s s' \<and> arrays_sized n s' \<and> agree_below (f * 9) s s' \<and> facet_ok d f s'"
proof -
  from facet_body_Inr [OF assms(1)] obtain vn vv vc where
    1: "\<forall>k<9. Inr (vn k) = getFloat32 d (84 + f * 50 + 4 * (k mod 3)) True" and
    2: "\<forall>k<9. Inr (vv k) = getFloat32 d (84 + f * 50 + 12 + 4 * k) True" and
    3: "var_colors s \<noteq> None \<longrightarrow>
        (\<exists>p. getUint16 d (84 + f * 50 + 48) True = Inr p \<and>
           (\<forall>k<9. vc k = fround (facet_rgb s p (k mod 3))))" and
    4: "var_normals s' = upd9 (var_normals s) (f * 9) vn" and
    5: "var_vertices s' = upd9 (var_vertices s) (f * 9) vv" and
    6: "var_colors s' = map_option (\<lambda>cs. upd9 cs (f * 9) vc) (var_colors s)" and
    7: "same_header s s'" by blast
  have sz: "arrays_sized n s'"
    using assms(2) by (auto simp: arrays_sized_def 4 5 6)
  have ag: "agree_below (f * 9) s s'"
    unfolding agree_below_def by (auto simp: 4 5 6 upd9_outside)
  have ln: "f * 9 + 9 \<le> length (var_normals s)" "f * 9 + 9 \<le> length (var_vertices s)"
    using assms(2,3) by (simp_all add: arrays_sized_def)
  have ok1: "\<forall>k<9. Inr (var_normals s' ! (f * 9 + k)) = getFloat32 d (84 + f * 50 + 4 * (k mod 3)) True"
    using 1 ln by (simp add: 4 upd9_inside)
  have ok2: "\<forall>k<9. Inr (var_vertices s' ! (f * 9 + k)) = getFloat32 d (84 + f * 50 + 12 + 4 * k) True"
    using 2 ln by (simp add: 5 upd9_inside)
  have ok3: "\<exists>p. getUint16 d (84 + f * 50 + 48) True = Inr p \<and>
           (\<forall>k<9. cs' ! (f * 9 + k) = fround (facet_rgb s' p (k mod 3)))"
    if h: "var_colors s' = Some cs'" for cs'
  proof -
    from h 6 obtain cs where cs: "var_colors s = Some cs" "cs' = upd9 cs (f * 9) vc" by auto
    then have lc: "f * 9 + 9 \<le> length cs" using assms(2,3) by (simp add: arrays_sized_def)
    from cs 3 obtain p where p: "getUint16 d (84 + f * 50 + 48) True = Inr p"
      "\<forall>k<9. vc k = fround (facet_rgb s p (k mod 3))" by auto
    have "\<forall>k<9. cs' ! (f * 9 + k) = fround (facet_rgb s' p (k mod 3))"
      using p(2) lc by (simp add: cs(2) upd9_inside facet_rgb_same_header [OF 7])
    with p(1) show ?thesis by blast
  qed
  have "facet_ok d f s'"
    unfolding facet_ok_def using ok1 ok2 ok3 by blast
  with 7 sz ag show ?thesis by blast
qed

lemma facet_loop_post:
  assumes "facet_loop d faces k s = Inr s'" "arrays_sized n s" "faces * 9 \<le> n"
  shows "same_header s s' \<and> arrays_sized n s' \<and> agree_below (k * 9) s s' \<and>
     (\<forall>f. k \<le> f \<and> f < faces \<longrightarrow> facet_ok d f s')"
  using assms
proof (induction d faces k s rule: facet_loop.induct)
  case (1 d faces face s)
  show ?case
  proof (cases "face < faces")
    case True
    then obtain s1 where b: "facet_body d face s = Inr s1"
      and l: "facet_loop d faces (face + 1) s1 = Inr s'"
      using "1.prems"(1) by (subst (asm) facet_loop.simps) (auto simp: and_then_eq_Inr)
    have le: "face * 9 + 9 \<le> n" using True "1.prems"(3) by simp
    from facet_body_post [OF b "1.prems"(2) le]
    have p1: "same_header s s1" "arrays_sized n s1" "agree_below (face * 9) s s1" "facet_ok d face s1"
      by simp_all
    from "1.IH" [of s1] True l p1(2) "1.prems"(3)
    have p2: "same_header s1 s'" "arrays_sized n s'" "agree_below ((face + 1) * 9) s1 s'"
      "\<forall>f. face + 1 \<le> f \<and> f < faces \<longrightarrow> facet_ok d f s'"
      by simp_all
    have a: "agree_below (face * 9 + 9) s1 s'" using p2(3) by (simp add: algebra_simps)
    have ok: "facet_ok d face s'" by (rule facet_ok_agree [OF p1(4) a p2(1)])
    have all: "\<forall>f. face \<le> f \<and> f < faces \<longrightarrow> facet_ok d f s'"
    proof (intro allI impI)
      fix f assume "face \<le> f \<and> f < faces"
      then consider "f = face" | "face + 1 \<le> f \<and> f < faces" by linarith
      then show "facet_ok d f s'" using ok p2(4) by cases auto
    qed
    have "agree_below (face * 9) s s'"
      by (rule agree_below_trans [OF p1(3) a]) simp
    with same_header_trans [OF p1(1) p2(1)] p2(2) all show ?thesis by blast
  next
    case False
    then have "s' = s" using "1.prems"(1) by (subst (asm) facet_loop.simps) simp
    then show ?thesis using False "1.prems"(2) by (auto simp: same_header_refl agree_below_refl)
  qed
qed

lemma decode_f32_zero: "decode_f32 0 = Num 0"
  unfolding decode_f32_def by simp

lemma decode_f32_one: "decode_f32 0x3F800000 = Num 1"
  unfolding decode_f32_def by simp

lemma facet_loop_done: "faces \<le> face \<Longrightarrow> facet_loop d faces face s = Inr s"
  by (subst facet_loop.simps) simp

lemma facet_loop_step:
  "face < faces \<Longrightarrow> facet_loop d faces face s =
     and_then (facet_body d face s) (facet_loop d faces (face + 1))"
  by (subst facet_loop.simps) simp

lemma list_update_Cons_numeral:
  "(x # xs)[numeral k := y] = x # xs[pred_numeral k := y]"
  by (simp add: numeral_eq_Suc)

lemma facet_body_unroll:
  "facet_body d face s =
     (let start = dataOffset + face * faceLength
      in and_then (getFloat32 d start True) (\<lambda>normalX.
         and_then (getFloat32 d (start + 4) True) (\<lambda>normalY.
         and_then (getFloat32 d (start + 8) True) (\<lambda>normalZ.
         and_then (facet_color d start s) (\<lambda>s'.
         and_then (vertex_body d start face (normalX, normalY, normalZ) 1 s') (\<lambda>s1.
         and_then (vertex_body d start face (normalX, normalY, normalZ) 2 s1)
           (vertex_body d start face (normalX, normalY, normalZ) 3)))))))"
  by (simp only: facet_body_def vertex_loop_unroll)

lemma times_nine: "n * 3 * 3 = n * (9::nat)"
  by simp

lemma new_Float32Array_Inr: "n \<le> cap \<Longrightarrow> new_Float32Array cap n = Inr (replicate n (Num 0))"
  by (simp add: new_Float32Array_def)

lemma new_Float32Array_Inl: "\<not> n \<le> cap \<Longrightarrow> new_Float32Array cap n = Inl RangeError"
  by (simp add: new_Float32Array_def)

lemma parse_unfold:
  assumes "getUint32 d 80 True = Inr w"
  shows "parse cap d =
     and_then (header_loop cap d (unat w) 0 init_locals) (\<lambda>s0.
     and_then (new_Float32Array cap (unat w * 9)) (\<lambda>vertices.
     and_then (new_Float32Array cap (unat w * 9)) (\<lambda>normals'.
       and_then (facet_loop d (unat w) 0 (s0\<lparr>var_vertices := vertices, var_normals := normals'\<rparr>))
         (\<lambda>s2. Inr (result_of s2)))))"
  by (simp only: parse_def assms Let_def and_then_Inr times_nine)

lemma parse_eqI:
  assumes "getUint32 d 80 True = Inr w"
    and "header_loop cap d (unat w) 0 init_locals = Inr s0"
    and "unat w * 9 \<le> cap"
    and "facet_loop d (unat w) 0
           (s0\<lparr>var_vertices := replicate (unat w * 9) (Num 0),
               var_normals := replicate (unat w * 9) (Num 0)\<rparr>) = Inr s2"
  shows "parse cap d = Inr (result_of s2)"
  by (simp only: parse_unfold [OF assms(1)] assms(2) new_Float32Array_Inr [OF assms(3)]
      assms(4) and_then_Inr)

lemma parse_alloc_fails:
  assumes "getUint32 d 80 True = Inr w" "\<not> unat w * 9 \<le> cap"
  shows "parse cap d = Inl RangeError"
proof (cases "header_loop cap d (unat w) 0 init_locals")
  case (Inl e)
  then show ?thesis
    using error_is_RangeError [of e] by (simp add: parse_unfold [OF assms(1)])
next
  case (Inr s0)
  then show ?thesis
    by (simp add: parse_unfold [OF assms(1)] new_Float32Array_Inl [OF assms(2)])
qed

lemma getFloat32_ok: "off + 4 \<le> length d \<Longrightarrow> \<exists>v. getFloat32 d off le = Inr v"
  using getFloat32_Inr_iff by blast

lemma vertex_body_succeeds:
  assumes "start + i * 12 + 12 \<le> length d"
  shows "\<exists>s'. vertex_body d start face n i s = Inr s'"
proof -
  obtain x y z where "getFloat32 d (start + i * 12) True = Inr x"
    "getFloat32 d (start + i * 12 + 4) True = Inr y" "getFloat32 d (start + i * 12 + 8) True = Inr z"
    using assms getFloat32_ok [of "start + i * 12" d True] getFloat32_ok [of "start + i * 12 + 4" d True]
      getFloat32_ok [of "start + i * 12 + 8" d True] by auto
  then show ?thesis
    by (cases n) (simp add: vertex_body_def Let_def)
qed

lemma facet_color_succeeds:
  assumes "var_colors s \<noteq> None \<longrightarrow> start + 50 \<le> length d"
  shows "\<exists>s'. facet_color d start s = Inr s'"
proof (cases "var_colors s")
  case None
  then show ?thesis by (simp add: facet_color_def)
next
  case (Some cs)
  then obtain p where "getUint16 d (start + 48) True = Inr p"
    using assms getUint16_Inr_iff [of d "start + 48" True] by auto
  then show ?thesis using Some by (simp add: facet_color_def)
qed

lemma facet_body_succeeds:
  assumes "facet_extent s f \<le> length d"
  shows "\<exists>s'. facet_body d f s = Inr s'"
proof -
  define start where "start = 84 + f * 50"
  have len: "start + 48 \<le> length d" and lenc: "var_colors s \<noteq> None \<longrightarrow> start + 50 \<le> length d"
    using assms by (auto simp: facet_extent_def start_def split: if_splits)
  obtain nx ny nz where n: "getFloat32 d start True = Inr nx" "getFloat32 d (start + 4) True = Inr ny"
    "getFloat32 d (start + 8) True = Inr nz"
    using len getFloat32_ok [of start d True] getFloat32_ok [of "start + 4" d True]
      getFloat32_ok [of "start + 8" d True] by auto
  obtain s0 where c: "facet_color d start s = Inr s0"
    using facet_color_succeeds [OF lenc] by blast
  obtain s1 where b1: "vertex_body d start f (nx, ny, nz) 1 s0 = Inr s1"
    using vertex_body_succeeds [of start 1 d f "(nx, ny, nz)" s0] len by auto
  obtain s2 where b2: "vertex_body d start f (nx, ny, nz) 2 s1 = Inr s2"
    using vertex_body_succeeds [of start 2 d f "(nx, ny, nz)" s1] len by auto
  obtain s3 where b3: "vertex_body d start f (nx, ny, nz) 3 s2 = Inr s3"
    using vertex_body_succeeds [of start 3 d f "(nx, ny, nz)" s2] len by auto
  have "facet_body d f s = Inr s3"
    unfolding facet_body_unroll
    by (simp add: dataOffset_def faceLength_def start_def [symmetric] n c
        b1 [unfolded One_nat_def] b2 b3)
  then show ?thesis by blast
qed

lemma facet_body_extent:
  assumes "facet_body d f s = Inr s'"
  shows "facet_extent s f \<le> length d"
proof -
  from facet_body_Inr [OF assms] obtain vv where
    2: "\<forall>k<9. Inr (vv k) = getFloat32 d (84 + f * 50 + 12 + 4 * k) True" and
    3: "var_colors s \<noteq> None \<longrightarrow> (\<exists>p. getUint16 d (84 + f * 50 + 48) True = Inr p)"
    by blast
  have "getFloat32 d (84 + f * 50 + 12 + 4 * 8) True = Inr (vv 8)" using 2 by simp
  then have a: "84 + f * 50 + 48 \<le> length d" using getFloat32_InrD by fastforce
  have b: "var_colors s \<noteq> None \<longrightarrow> 84 + f * 50 + 50 \<le> length d"
    using 3 getUint16_Inr_iff [of d "84 + f * 50 + 48" True] by auto
  show ?thesis using a b by (simp add: facet_extent_def)
qed

lemma facet_body_colors_None:
  assumes "facet_body d f s = Inr s'"
  shows "var_colors s' = None \<longleftrightarrow> var_colors s = None"
  using facet_body_Inr [OF assms] by auto

lemma facet_extent_cong:
  "(var_colors s' = None \<longleftrightarrow> var_colors s = None) \<Longrightarrow> facet_extent s' f = facet_extent s f"
  by (simp add: facet_extent_def)

lemma facet_loop_Inr_iff:
  "(\<exists>s'. facet_loop d faces k s = Inr s') \<longleftrightarrow>
   (\<forall>f. k \<le> f \<and> f < faces \<longrightarrow> facet_extent s f \<le> length d)"
proof (induction d faces k s rule: facet_loop.induct)
  case (1 d faces face s)
  show ?case
  proof (cases "face < faces")
    case False
    then show ?thesis by (simp add: facet_loop_done)
  next
    case True
    note step = facet_loop_step [OF True, of d s]
    show ?thesis
    proof (cases "facet_extent s face \<le> length d")
      case False
      then have "\<not> (\<exists>s1. facet_body d face s = Inr s1)"
        using facet_body_extent by blast
      then have "\<not> (\<exists>s'. facet_loop d faces face s = Inr s')"
        unfolding step by (auto simp: and_then_eq_Inr)
      then show ?thesis using False True by auto
    next
      case ext: True
      then obtain s1 where b: "facet_body d face s = Inr s1"
        using facet_body_succeeds by blast
      have e: "facet_extent s1 f = facet_extent s f" for f
        by (rule facet_extent_cong) (rule facet_body_colors_None [OF b])
      have "(\<exists>s'. facet_loop d faces face s = Inr s') \<longleftrightarrow>
            (\<exists>s'. facet_loop d faces (face + 1) s1 = Inr s')"
        unfolding step by (simp add: b)
      also have "\<dots> \<longleftrightarrow> (\<forall>f. face + 1 \<le> f \<and> f < faces \<longrightarrow> facet_extent s f \<le> length d)"
        using "1.IH" [of s1] True by (simp add: e)
      also have "\<dots> \<longleftrightarrow> (\<forall>f. face \<le> f \<and> f < faces \<longrightarrow> facet_extent s f \<le> length d)"
      proof
        assume h: "\<forall>f. face + 1 \<le> f \<and> f < faces \<longrightarrow> facet_extent s f \<le> length d"
        show "\<forall>f. face \<le> f \<and> f < faces \<longrightarrow> facet_extent s f \<le> length d"
        proof (intro allI impI)
          fix f assume "face \<le> f \<and> f < faces"
          then consider "f = face" | "face + 1 \<le> f \<and> f < faces" by linarith
          then show "facet_extent s f \<le> length d" using ext h by cases auto
        qed
      next
        assume "\<forall>f. face \<le> f \<and> f < faces \<longrightarrow> facet_extent s f \<le> length d"
        then show "\<forall>f. face + 1 \<le> f \<and> f < faces \<longrightarrow> facet_extent s f \<le> length d" by simp
      qed
      finally show ?thesis .
    qed
  qed
qed

lemma getUint32_InrD: "getUint32 d off le = Inr w \<Longrightarrow> off + 4 \<le> length d"
  by (simp add: getUint32_def split: if_splits)

lemma header_loop_cases:
  assumes "80 \<le> length d"
  shows "((\<forall>i<70. \<not> color_marker d i) \<and> header_loop cap d faces 0 s = Inr s) \<or>
     (\<exists>i<70. color_marker d i \<and> (\<forall>j. i < j \<and> j < 70 \<longrightarrow> \<not> color_marker d j) \<and>
        header_loop cap d faces 0 s = header_match cap d faces i s)"
proof (cases "\<exists>i<70. color_marker d i")
  case False
  then have "header_loop cap d faces 0 s = Inr s"
    using assms by (intro header_loop_none) auto
  with False show ?thesis by blast
next
  case True
  define M where "M = {i. i < 70 \<and> color_marker d i}"
  have fin: "finite M" and ne: "M \<noteq> {}" using True by (auto simp: M_def)
  define i where "i = Max M"
  have iM: "i \<in> M" unfolding i_def using fin ne by (rule Max_in)
  have mx: "j \<le> i" if "j \<in> M" for j unfolding i_def using fin that by (rule Max_ge)
  have 1: "i < 70" "color_marker d i" using iM by (auto simp: M_def)
  have 2: "\<forall>j. i < j \<and> j < 70 \<longrightarrow> \<not> color_marker d j"
    using mx by (fastforce simp: M_def)
  have "header_loop cap d faces 0 s = header_match cap d faces i s"
    using assms 1 2 by (intro header_loop_last) auto
  with 1 2 show ?thesis by blast
qed

lemma parse_Inr:
  assumes "parse cap d = Inr m" "getUint32 d 80 True = Inr w"
  shows "unat w * 9 \<le> cap \<and>
     (\<exists>s0 s2. header_loop cap d (unat w) 0 init_locals = Inr s0 \<and>
        facet_loop d (unat w) 0
          (s0\<lparr>var_vertices := replicate (unat w * 9) (Num 0),
              var_normals := replicate (unat w * 9) (Num 0)\<rparr>) = Inr s2 \<and>
        m = result_of s2)"
proof (cases "unat w * 9 \<le> cap")
  case False
  from parse_alloc_fails [OF assms(2) False] assms(1) show ?thesis by simp
next
  case True
  with assms(1) show ?thesis
    unfolding parse_unfold [OF assms(2)] new_Float32Array_Inr [OF True]
    by (auto simp: and_then_eq_Inr)
qed

lemma header_loop_done:
  assumes "80 \<le> length d" "header_loop cap d faces 0 init_locals = Inr s0"
  shows "header_done d faces s0"
proof -
  from header_loop_cases [OF assms(1), of cap faces init_locals]
  consider (none) "\<forall>i<70. \<not> color_marker d i" "header_loop cap d faces 0 init_locals = Inr init_locals"
    | (last) i where "i < 70" "color_marker d i" "\<forall>j. i < j \<and> j < 70 \<longrightarrow> \<not> color_marker d j"
        "header_loop cap d faces 0 init_locals = header_match cap d faces i init_locals"
    by blast
  then show ?thesis
  proof cases
    case none
    then show ?thesis using assms(2) by (simp add: header_done_def)
  next
    case (last i)
    have m: "header_match cap d faces i init_locals = Inr s0" using last(4) assms(2) by simp
    have "i + 10 \<le> length d" using last(1) assms(1) by simp
    from header_match_Inr [OF this header_match_InrD [OF m], of init_locals] m last(1,2,3)
    show ?thesis
      unfolding header_done_def by auto
  qed
qed

lemma header_loop_succeeds:
  assumes "80 \<le> length d" "faces * 9 \<le> cap \<or> (\<forall>i<70. \<not> color_marker d i)"
  shows "\<exists>s0. header_loop cap d faces 0 init_locals = Inr s0"
proof (cases "\<forall>i<70. \<not> color_marker d i")
  case True
  then have "header_loop cap d faces 0 init_locals = Inr init_locals"
    using assms(1) by (intro header_loop_none) auto
  then show ?thesis by blast
next
  case False
  then have ok: "faces * 9 \<le> cap" using assms(2) by blast
  from header_loop_cases [OF assms(1), of cap faces init_locals] False
  obtain i where i: "i < 70"
    "header_loop cap d faces 0 init_locals = header_match cap d faces i init_locals" by blast
  have "i + 10 \<le> length d" using i(1) assms(1) by simp
  from header_match_Inr [OF this ok, of init_locals] i(2) show ?thesis by simp
qed

lemma header_loop_fails:
  assumes "80 \<le> length d" "\<not> faces * 9 \<le> cap" "i < 70" "color_marker d i"
  shows "header_loop cap d faces 0 init_locals = Inl RangeError"
  using assms by (intro header_loop_alloc_fails [where i = i]) simp_all

lemma header_done_colors:
  assumes "header_done d faces s0"
  shows "(var_colors s0 = None \<longleftrightarrow> \<not> var_hasColors s0)"
    and "(var_colors s0 = None \<longleftrightarrow> (\<forall>i<70. \<not> color_marker d i))"
    and "\<forall>cs. var_colors s0 = Some cs \<longrightarrow> length cs = faces * 9"
  using assms by (auto simp: header_done_def init_locals_def)

lemma parse_post:
  assumes "parse cap d = Inr m" "getUint32 d 80 True = Inr w"
  shows "\<exists>s0 s2. header_done d (unat w) s0 \<and> same_header s0 s2 \<and>
     arrays_sized (unat w * 9) s2 \<and>
     (var_colors s0 = None \<longrightarrow> var_colors s2 = None) \<and>
     (var_colors s0 \<noteq> None \<longrightarrow> var_colors s2 \<noteq> None) \<and>
     (\<forall>f<unat w. facet_ok d f s2) \<and> m = result_of s2"
proof -
  from parse_Inr [OF assms] obtain s0 s2 where
    h: "header_loop cap d (unat w) 0 init_locals = Inr s0" and
    l: "facet_loop d (unat w) 0
       (s0\<lparr>var_vertices := replicate (unat w * 9) (Num 0),
           var_normals := replicate (unat w * 9) (Num 0)\<rparr>) = Inr s2" and
    m: "m = result_of s2" by blast
  define s1 where "s1 = s0\<lparr>var_vertices := replicate (unat w * 9) (Num 0),
           var_normals := replicate (unat w * 9) (Num 0)\<rparr>"
  have len: "80 \<le> length d" using getUint32_InrD [OF assms(2)] by simp
  from header_loop_done [OF len h] have hd: "header_done d (unat w) s0" .
  have sz: "arrays_sized (unat w * 9) s1"
    using header_done_colors(3) [OF hd] by (simp add: arrays_sized_def s1_def)
  have sh: "same_header s0 s1" "var_colors s1 = var_colors s0"
    by (simp_all add: same_header_def s1_def)
  from facet_loop_post [OF l [folded s1_def] sz]
  have p: "same_header s1 s2" "arrays_sized (unat w * 9) s2" "agree_below (0 * 9) s1 s2"
    "\<forall>f. 0 \<le> f \<and> f < unat w \<longrightarrow> facet_ok d f s2" by simp_all
  have c: "var_colors s0 = None \<longrightarrow> var_colors s2 = None"
    "var_colors s0 \<noteq> None \<longrightarrow> var_colors s2 \<noteq> None"
    using p(3) sh(2) by (simp_all add: agree_below_def)
  have sh2: "same_header s0 s2" by (rule same_header_trans [OF sh(1) p(1)])
  have ok: "\<forall>f<unat w. facet_ok d f s2" using p(4) by simp
  show ?thesis
    by (intro exI [of _ s0] exI [of _ s2] conjI hd sh2 p(2) c ok m)
qed

lemma parse_succeeds:
  assumes "getUint32 d 80 True = Inr w" "84 + unat w * 50 \<le> length d" "unat w * 9 \<le> cap"
  shows "\<exists>m. parse cap d = Inr m"
proof -
  have len: "80 \<le> length d" using assms(2) by simp
  from header_loop_succeeds [OF len, of "unat w" cap] assms(3) obtain s0 where
    h: "header_loop cap d (unat w) 0 init_locals = Inr s0" by blast
  define s1 where "s1 = s0\<lparr>var_vertices := replicate (unat w * 9) (Num 0),
           var_normals := replicate (unat w * 9) (Num 0)\<rparr>"
  have "\<forall>f. 0 \<le> f \<and> f < unat w \<longrightarrow> facet_extent s1 f \<le> length d"
  proof (intro allI impI)
    fix f assume "0 \<le> f \<and> f < unat w"
    then have "f * 50 + 50 \<le> unat w * 50" by simp
    then show "facet_extent s1 f \<le> length d" using assms(2) by (simp add: facet_extent_def)
  qed
  then obtain s2 where "facet_loop d (unat w) 0 s1 = Inr s2"
    using facet_loop_Inr_iff [of d "unat w" 0 s1] by auto
  then have "parse cap d = Inr (result_of s2)"
    using parse_eqI [OF assms(1) h assms(3)] by (simp add: s1_def)
  then show ?thesis by blast
qed

lemma result_of_simps:
  "hasColors (result_of s) = var_hasColors s"
  "position (result_of s) = var_vertices s"
  "normals (result_of s) = var_normals s"
  "colors (result_of s) = (if var_hasColors s then var_colors s else None)"
  "alpha (result_of s) =
     (if var_hasColors s \<and> var_colors s \<noteq> None then Some (var_alpha s) else None)"
  by (auto simp: result_of_def split: option.splits)

lemma header_done_hasColors:
  assumes "header_done d faces s0"
  shows "var_hasColors s0 \<longleftrightarrow> (\<exists>i<70. color_marker d i)"
  using assms by (auto simp: header_done_def init_locals_def)

lemma header_done_last:
  assumes "header_done d faces s0" "i < 70" "color_marker d i"
    "\<forall>j. i < j \<and> j < 70 \<longrightarrow> \<not> color_marker d j"
  shows "var_hasColors s0 \<and> var_colors s0 \<noteq> None \<and>
     var_defaultR s0 = div_byte (d ! (i + 6)) 255 \<and> var_defaultG s0 = div_byte (d ! (i + 7)) 255 \<and>
     var_defaultB s0 = div_byte (d ! (i + 8)) 255 \<and> var_alpha s0 = div_byte (d ! (i + 9)) 255"
proof -
  from assms(1) assms(2,3) obtain i' where i': "i' < 70" "color_marker d i'"
    "\<forall>j. i' < j \<and> j < 70 \<longrightarrow> \<not> color_marker d j"
    and s0: "s0 = init_locals\<lparr>var_hasColors := True,
               var_colors := Some (replicate (faces * 9) (Num 0)),
               var_defaultR := div_byte (d ! (i' + 6)) 255,
               var_defaultG := div_byte (d ! (i' + 7)) 255,
               var_defaultB := div_byte (d ! (i' + 8)) 255,
               var_alpha := div_byte (d ! (i' + 9)) 255\<rparr>"
    unfolding header_done_def by blast
  have "i' = i"
  proof (rule ccontr)
    assume "i' \<noteq> i"
    then consider "i' < i" | "i < i'" by linarith
    then show False using i' assms(2,3,4) by cases auto
  qed
  then show ?thesis by (simp add: s0)
qed

lemma parse_hasColors:
  assumes "parse cap d = Inr m" "getUint32 d 80 True = Inr w"
  shows "hasColors m \<longleftrightarrow> (\<exists>i<70. color_marker d i)"
proof -
  from parse_post [OF assms] obtain s0 s where hd: "header_done d (unat w) s0"
    and sh: "same_header s0 s" and m: "m = result_of s" by blast
  have "hasColors m = var_hasColors s0" using sh by (simp add: m result_of_simps same_header_def)
  then show ?thesis using header_done_hasColors [OF hd] by simp
qed

lemma parse_colors:
  assumes "parse cap d = Inr m" "getUint32 d 80 True = Inr w" "hasColors m"
  shows "\<exists>s0 cs. header_done d (unat w) s0 \<and> var_hasColors s0 \<and> colors m = Some cs \<and>
     alpha m = Some (var_alpha s0) \<and>
     (\<forall>f<unat w. \<exists>p. getUint16 d (84 + f * 50 + 48) True = Inr p \<and>
        (\<forall>k<9. cs ! (f * 9 + k) = fround (facet_rgb s0 p (k mod 3))))"
proof -
  from parse_post [OF assms(1,2)] obtain s0 s where hd: "header_done d (unat w) s0"
    and sh: "same_header s0 s" and m: "m = result_of s"
    and cn: "var_colors s0 \<noteq> None \<longrightarrow> var_colors s \<noteq> None"
    and ok: "\<forall>f<unat w. facet_ok d f s" by blast
  have hc: "var_hasColors s" "var_hasColors s0"
    using assms(3) sh by (simp_all add: m result_of_simps same_header_def)
  then have "var_colors s \<noteq> None" using header_done_colors(1) [OF hd] cn by simp
  then obtain cs where cs: "var_colors s = Some cs" by auto
  have c: "colors m = Some cs" and a: "alpha m = Some (var_alpha s0)"
    using hc cs sh by (simp_all add: m result_of_simps same_header_def)
  have "\<exists>p. getUint16 d (84 + f * 50 + 48) True = Inr p \<and>
        (\<forall>k<9. cs ! (f * 9 + k) = fround (facet_rgb s0 p (k mod 3)))" if "f < unat w" for f
  proof -
    from ok that cs obtain p where p: "getUint16 d (84 + f * 50 + 48) True = Inr p"
      "\<forall>k<9. cs ! (f * 9 + k) = fround (facet_rgb s p (k mod 3))"
      unfolding facet_ok_def by blast
    then show ?thesis using facet_rgb_same_header [OF sh] by auto
  qed
  then show ?thesis using hd hc(2) c a by blast
qed

lemma vertex_component:
  assumes "(j::nat) < 3"
  shows "j * 3 < 9" "j * 3 + 1 < 9" "j * 3 + 2 < 9"
    "(j * 3) mod 3 = 0" "(j * 3 + 1) mod 3 = 1" "(j * 3 + 2) mod 3 = 2"
proof -
  have "j = 0 \<or> j = 1 \<or> j = 2" using assms by arith
  then show "j * 3 < 9" "j * 3 + 1 < 9" "j * 3 + 2 < 9"
    "(j * 3) mod 3 = 0" "(j * 3 + 1) mod 3 = 1" "(j * 3 + 2) mod 3 = 2"
    by auto
qed

lemma default_color:
  assumes "parse cap d = Inr m" "getUint32 d 80 True = Inr w" "i < 70" "color_marker d i"
    "\<forall>j. i < j \<and> j < 70 \<longrightarrow> \<not> color_marker d j"
  shows "hasColors m \<and> alpha m = Some (div_byte (d ! (i + 9)) 255) \<and>
     (\<exists>cs. colors m = Some cs \<and>
        (\<forall>f<unat w. \<forall>p. getUint16 d (84 + f * 50 + 48) True = Inr p \<and> p AND 0x8000 \<noteq> 0 \<longrightarrow>
           (\<forall>j<3. cs ! (f * 9 + j * 3) = fround (div_byte (d ! (i + 6)) 255) \<and>
              cs ! (f * 9 + j * 3 + 1) = fround (div_byte (d ! (i + 7)) 255) \<and>
              cs ! (f * 9 + j * 3 + 2) = fround (div_byte (d ! (i + 8)) 255))))"
proof -
  have hc: "hasColors m" using parse_hasColors [OF assms(1,2)] assms(3,4) by blast
  from parse_colors [OF assms(1,2) hc] obtain s0 cs where
    hd: "header_done d (unat w) s0" and c: "colors m = Some cs" and
    a: "alpha m = Some (var_alpha s0)" and
    rgb: "\<forall>f<unat w. \<exists>p. getUint16 d (84 + f * 50 + 48) True = Inr p \<and>
        (\<forall>k<9. cs ! (f * 9 + k) = fround (facet_rgb s0 p (k mod 3)))" by blast
  note df = header_done_last [OF hd assms(3,4,5)]
  have "\<forall>j<3. cs ! (f * 9 + j * 3) = fround (div_byte (d ! (i + 6)) 255) \<and>
              cs ! (f * 9 + j * 3 + 1) = fround (div_byte (d ! (i + 7)) 255) \<and>
              cs ! (f * 9 + j * 3 + 2) = fround (div_byte (d ! (i + 8)) 255)"
    if f: "f < unat w" and p: "getUint16 d (84 + f * 50 + 48) True = Inr p" "p AND 0x8000 \<noteq> 0"
    for f p
  proof (intro allI impI)
    fix j :: nat assume j: "j < 3"
    from rgb f p(1) have r: "\<forall>k<9. cs ! (f * 9 + k) = fround (facet_rgb s0 p (k mod 3))" by fastforce
    have "cs ! (f * 9 + (j * 3)) = fround (facet_rgb s0 p 0)"
      "cs ! (f * 9 + (j * 3 + 1)) = fround (facet_rgb s0 p 1)"
      "cs ! (f * 9 + (j * 3 + 2)) = fround (facet_rgb s0 p 2)"
      using r vertex_component [OF j] by metis+
    then show "cs ! (f * 9 + j * 3) = fround (div_byte (d ! (i + 6)) 255) \<and>
              cs ! (f * 9 + j * 3 + 1) = fround (div_byte (d ! (i + 7)) 255) \<and>
              cs ! (f * 9 + j * 3 + 2) = fround (div_byte (d ! (i + 8)) 255)"
      using p(2) df by (simp add: facet_rgb_simps add.assoc)
  qed
  with hc a c df show ?thesis by auto
qed

lemma parse_zero_facets_marker:
  assumes "84 \<le> length d" "getUint32 d 80 True = Inr 0" "i < 70" "color_marker d i"
    "\<forall>j. i < j \<and> j < 70 \<longrightarrow> \<not> color_marker d j"
  shows "parse cap d =
     Inr \<lparr>hasColors = True, position = [], normals = [], colors = Some [],
          alpha = Some (div_byte (d ! (i + 9)) 255)\<rparr>"
proof -
  have len: "80 \<le> length d" using assms(1) by simp
  have ok: "unat (0 :: 32 word) * 9 \<le> cap" by simp
  define s0 where "s0 = init_locals\<lparr>var_hasColors := True,
             var_colors := Some (replicate (unat (0 :: 32 word) * 9) (Num 0)),
             var_defaultR := div_byte (d ! (i + 6)) 255,
             var_defaultG := div_byte (d ! (i + 7)) 255,
             var_defaultB := div_byte (d ! (i + 8)) 255,
             var_alpha := div_byte (d ! (i + 9)) 255\<rparr>"
  have "header_loop cap d (unat (0 :: 32 word)) 0 init_locals =
      header_match cap d (unat (0 :: 32 word)) i init_locals"
    using len assms(3,4,5) by (intro header_loop_last) auto
  also have "\<dots> = Inr s0"
    unfolding s0_def using assms(1,3) by (intro header_match_Inr [OF _ ok]) simp
  finally have h: "header_loop cap d (unat (0 :: 32 word)) 0 init_locals = Inr s0" .
  have l: "facet_loop d (unat (0 :: 32 word)) 0
      (s0\<lparr>var_vertices := replicate (unat (0 :: 32 word) * 9) (Num 0),
         var_normals := replicate (unat (0 :: 32 word) * 9) (Num 0)\<rparr>) =
      Inr (s0\<lparr>var_vertices := [], var_normals := []\<rparr>)"
    by (simp add: facet_loop_done)
  from parse_eqI [OF assms(2) h ok l] show ?thesis
    by (simp add: result_of_def s0_def init_locals_def)
qed

lemma parse_zero_facets_plain:
  assumes "84 \<le> length d" "getUint32 d 80 True = Inr 0" "\<forall>i<70. \<not> color_marker d i"
  shows "parse cap d =
     Inr \<lparr>hasColors = False, position = [], normals = [], colors = None, alpha = None\<rparr>"
proof -
  have ok: "unat (0 :: 32 word) * 9 \<le> cap" by simp
  have h: "header_loop cap d (unat (0 :: 32 word)) 0 init_locals = Inr init_locals"
    using assms(1,3) by (intro header_loop_none) auto
  have l: "facet_loop d (unat (0 :: 32 word)) 0
      (init_locals\<lparr>var_vertices := replicate (unat (0 :: 32 word) * 9) (Num 0),
         var_normals := replicate (unat (0 :: 32 word) * 9) (Num 0)\<rparr>) =
      Inr (init_locals\<lparr>var_vertices := [], var_normals := []\<rparr>)"
    by (simp add: facet_loop_done)
  from parse_eqI [OF assms(2) h ok l] show ?thesis
    by (simp add: result_of_def init_locals_def)
qed

lemma parse_RangeError_iff:
  assumes "getUint32 d 80 True = Inr w" "0 < unat w"
  shows "parse cap d = Inl RangeError \<longleftrightarrow>
     cap < unat w * 9 \<or>
     length d < 84 + unat w * 50 - (if \<exists>i<70. color_marker d i then 0 else 2)"
    and "unat w * 9 \<le> cap \<Longrightarrow>
     \<exists>s0. header_loop cap d (unat w) 0 init_locals = Inr s0 \<and>
       (facet_loop d (unat w) 0
          (s0\<lparr>var_vertices := replicate (unat w * 9) (Num 0),
              var_normals := replicate (unat w * 9) (Num 0)\<rparr>) = Inl RangeError \<longleftrightarrow>
        length d < 84 + unat w * 50 - (if \<exists>i<70. color_marker d i then 0 else 2))"
proof -
  have len: "80 \<le> length d" using getUint32_InrD [OF assms(1)] by simp
  have main: "\<exists>s0. header_loop cap d (unat w) 0 init_locals = Inr s0 \<and>
       (facet_loop d (unat w) 0
          (s0\<lparr>var_vertices := replicate (unat w * 9) (Num 0),
              var_normals := replicate (unat w * 9) (Num 0)\<rparr>) = Inl RangeError \<longleftrightarrow>
        length d < 84 + unat w * 50 - (if \<exists>i<70. color_marker d i then 0 else 2)) \<and>
       (parse cap d = Inl RangeError \<longleftrightarrow>
        length d < 84 + unat w * 50 - (if \<exists>i<70. color_marker d i then 0 else 2))"
    if ok: "unat w * 9 \<le> cap"
  proof -
    from header_loop_succeeds [OF len, of "unat w" cap] ok obtain s0 where
      h: "header_loop cap d (unat w) 0 init_locals = Inr s0" by blast
    from header_loop_done [OF len h] have hd: "header_done d (unat w) s0" .
    define s1 where "s1 = s0\<lparr>var_vertices := replicate (unat w * 9) (Num 0),
             var_normals := replicate (unat w * 9) (Num 0)\<rparr>"
    have c: "var_colors s1 = None \<longleftrightarrow> \<not> (\<exists>i<70. color_marker d i)"
      using header_done_colors(2) [OF hd] by (simp add: s1_def)
    define tail :: nat where "tail = (if \<exists>i<70. color_marker d i then 50 else 48)"
    have ext: "facet_extent s1 f = 84 + f * 50 + tail" for f
      using c by (auto simp: facet_extent_def tail_def)
    have p: "parse cap d = and_then (facet_loop d (unat w) 0 s1) (\<lambda>s2. Inr (result_of s2))"
      by (simp only: parse_unfold [OF assms(1)] h new_Float32Array_Inr [OF ok] and_then_Inr s1_def)
    have pf: "parse cap d = Inl RangeError \<longleftrightarrow> facet_loop d (unat w) 0 s1 = Inl RangeError"
      unfolding p by (cases "facet_loop d (unat w) 0 s1") simp_all
    have "facet_loop d (unat w) 0 s1 = Inl RangeError \<longleftrightarrow>
        \<not> (\<exists>s2. facet_loop d (unat w) 0 s1 = Inr s2)"
    proof (cases "facet_loop d (unat w) 0 s1")
      case (Inl e)
      then show ?thesis using error_is_RangeError [of e] by simp
    next
      case (Inr s2)
      then show ?thesis by simp
    qed
    also have "\<dots> \<longleftrightarrow> \<not> (\<forall>f. 0 \<le> f \<and> f < unat w \<longrightarrow> 84 + f * 50 + tail \<le> length d)"
      unfolding facet_loop_Inr_iff ext ..
    also have "\<dots> \<longleftrightarrow> length d < 84 + (unat w - 1) * 50 + tail"
    proof
      assume "\<not> (\<forall>f. 0 \<le> f \<and> f < unat w \<longrightarrow> 84 + f * 50 + tail \<le> length d)"
      then obtain f where f: "f < unat w" "length d < 84 + f * 50 + tail" by auto
      then have "f * 50 \<le> (unat w - 1) * 50" by simp
      with f(2) show "length d < 84 + (unat w - 1) * 50 + tail" by linarith
    next
      assume "length d < 84 + (unat w - 1) * 50 + tail"
      moreover have "unat w - 1 < unat w" using assms(2) by simp
      ultimately show "\<not> (\<forall>f. 0 \<le> f \<and> f < unat w \<longrightarrow> 84 + f * 50 + tail \<le> length d)"
        by (metis le0 not_less)
    qed
    also have "84 + (unat w - 1) * 50 + tail =
        84 + unat w * 50 - (if \<exists>i<70. color_marker d i then 0 else 2)"
      using assms(2) by (cases "unat w") (auto simp: tail_def)
    finally have fl: "facet_loop d (unat w) 0 s1 = Inl RangeError \<longleftrightarrow>
        length d < 84 + unat w * 50 - (if \<exists>i<70. color_marker d i then 0 else 2)" .
    show ?thesis
      using h fl pf unfolding s1_def by blast
  qed
  show "unat w * 9 \<le> cap \<Longrightarrow>
     \<exists>s0. header_loop cap d (unat w) 0 init_locals = Inr s0 \<and>
       (facet_loop d (unat w) 0
          (s0\<lparr>var_vertices := replicate (unat w * 9) (Num 0),
              var_normals := replicate (unat w * 9) (Num 0)\<rparr>) = Inl RangeError \<longleftrightarrow>
        length d < 84 + unat w * 50 - (if \<exists>i<70. color_marker d i then 0 else 2))"
    using main by blast
  show "parse cap d = Inl RangeError \<longleftrightarrow>
     cap < unat w * 9 \<or>
     length d < 84 + unat w * 50 - (if \<exists>i<70. color_marker d i then 0 else 2)"
  proof (cases "unat w * 9 \<le> cap")
    case True
    from main [OF True] have "parse cap d = Inl RangeError \<longleftrightarrow>
        length d < 84 + unat w * 50 - (if \<exists>i<70. color_marker d i then 0 else 2)"
      by blast
    moreover have "\<not> cap < unat w * 9" using True by simp
    ultimately show ?thesis by blast
  next
    case False
    then have "cap < unat w * 9" by simp
    with parse_alloc_fails [OF assms(1) False] show ?thesis by blast
  qed
qed

subsection \<open>The concrete buffers, evaluated\<close>

lemma round_f64_64_255: "round_f64 (64 / 255) = Num (282578800148737 / 1125899906842624)"
  unfolding round_f64_def
  using round_binary_eval(1) [of "-2" "64 / 255" "- 1022" 53 4521260802379792 1023]
  by (simp add: round_half_even_eqI)

lemma fround_f64_64_255:
  "fround (Num (282578800148737 / 1125899906842624)) = Num (8421505 / 33554432)"
  unfolding fround_def
  using round_binary_eval(1) [of "-2" "282578800148737 / 1125899906842624" "- 126" 24 8421505 127]
  by (simp add: round_half_even_eqI)

lemma fround_f64_16_31:
  "fround (Num (1162219258676257 / 2251799813685248)) = Num (1082401 / 2097152)"
  unfolding fround_def
  using round_binary_eval(1) [of "-1" "1162219258676257 / 2251799813685248" "- 126" 24 8659208 127]
  by (simp add: round_half_even_eqI)

lemma div_byte_values:
  "div_byte 0x80 255 = Num (282578800148737 / 562949953421312)"
  "div_byte 0x40 255 = Num (282578800148737 / 1125899906842624)"
  "div_byte 0xFF 255 = Num 1"
  "div_byte 0 255 = Num 0"
  by (simp_all add: div_byte_def round_f64_128_255 round_f64_64_255 round_f64_one round_f64_zero)

lemma div_u16_values:
  "div_u16 0x10 31 = Num (1162219258676257 / 2251799813685248)"
  "div_u16 0x1F 31 = Num 1"
  "div_u16 0 31 = Num 0"
  by (simp_all add: div_u16_def round_f64_16_31 round_f64_one round_f64_zero)

lemmas fround_values =
  fround_zero fround_one fround_f64_128_255 fround_f64_64_255 fround_f64_16_31

lemma replicate_numeral_Cons: "replicate (numeral k) x = x # replicate (pred_numeral k) x"
  by (simp add: numeral_eq_Suc)

lemma blank_header_no_marker:
  assumes "j < 70"
  shows "\<not> color_marker (blank_header fill @ rest) j"
proof
  assume "color_marker (blank_header fill @ rest) j"
  then have m: "(blank_header fill @ rest) ! j = 0x43" "(blank_header fill @ rest) ! (j + 1) = 0x4F"
    unfolding color_marker_def by blast+
  have "(blank_header fill @ rest) ! j = fill" "(blank_header fill @ rest) ! (j + 1) = fill"
    using assms by (simp_all add: blank_header_def nth_append)
  with m have "fill = 0x43" "fill = 0x4F" by simp_all
  then show False by simp
qed

lemma nth_padded:
  "length xs \<le> j \<Longrightarrow> j < length xs + n \<Longrightarrow> ((xs @ replicate n x) @ rest) ! j = x"
  by (auto simp: nth_append)

lemma color_header_marker:
  "color_marker (color_header @ rest) 0"
  "(color_header @ rest) ! 6 = 0x80" "(color_header @ rest) ! 7 = 0x80"
  "(color_header @ rest) ! 8 = 0x80" "(color_header @ rest) ! 9 = 0xFF"
  by (simp_all add: color_marker_def color_header_def)

lemma color_header_no_later_marker:
  assumes "0 < j" "j < 70"
  shows "\<not> color_marker (color_header @ rest) j"
proof -
  have "(color_header @ rest) ! j \<noteq> 0x43"
  proof (cases "j < 10")
    case True
    with assms(1) have "j = 1 \<or> j = 2 \<or> j = 3 \<or> j = 4 \<or> j = 5 \<or> j = 6 \<or> j = 7 \<or> j = 8 \<or> j = 9"
      by arith
    then show ?thesis
      by (elim disjE) (simp_all add: color_header_def)
  next
    case False
    then have "(color_header @ rest) ! j = 0"
      unfolding color_header_def using assms(2) by (intro nth_padded) simp_all
    then show ?thesis by simp
  qed
  then show ?thesis by (simp add: color_marker_def)
qed

lemma two_marker_header_markers:
  "color_marker (two_marker_header @ rest) 0"
  "color_marker (two_marker_header @ rest) 10"
  "(two_marker_header @ rest) ! 6 = 0x80" "(two_marker_header @ rest) ! 7 = 0x80"
  "(two_marker_header @ rest) ! 8 = 0x80" "(two_marker_header @ rest) ! 9 = 0xFF"
  "(two_marker_header @ rest) ! 16 = 0xFF" "(two_marker_header @ rest) ! 17 = 0x40"
  "(two_marker_header @ rest) ! 18 = 0x00" "(two_marker_header @ rest) ! 19 = 0x80"
  by (simp_all add: color_marker_def two_marker_header_def)

lemma two_marker_header_no_later_marker:
  assumes "10 < j" "j < 70"
  shows "\<not> color_marker (two_marker_header @ rest) j"
proof -
  have "(two_marker_header @ rest) ! j \<noteq> 0x43"
  proof (cases "j < 20")
    case True
    with assms(1) have "j = 11 \<or> j = 12 \<or> j = 13 \<or> j = 14 \<or> j = 15 \<or> j = 16 \<or> j = 17 \<or>
        j = 18 \<or> j = 19"
      by arith
    then show ?thesis
      by (elim disjE) (simp_all add: two_marker_header_def)
  next
    case False
    then have "(two_marker_header @ rest) ! j = 0"
      unfolding two_marker_header_def using assms(2) by (intro nth_padded) simp_all
    then show ?thesis by simp
  qed
  then show ?thesis by (simp add: color_marker_def)
qed

lemma single_triangle_length: "length (single_triangle fill) = 134"
  by (simp add: single_triangle_def blank_header_def triangle_floats_def)

lemma single_triangle_faces: "getUint32 (single_triangle fill) 80 True = Inr 1"
  by (simp add: getUint32_def single_triangle_def blank_header_def nth_append)

lemma single_triangle_floats:
  "getFloat32 (single_triangle fill) 84 True = Inr (Num 0)"
  "getFloat32 (single_triangle fill) 88 True = Inr (Num 0)"
  "getFloat32 (single_triangle fill) 92 True = Inr (Num 1)"
  "getFloat32 (single_triangle fill) 96 True = Inr (Num 0)"
  "getFloat32 (single_triangle fill) 100 True = Inr (Num 0)"
  "getFloat32 (single_triangle fill) 104 True = Inr (Num 0)"
  "getFloat32 (single_triangle fill) 108 True = Inr (Num 1)"
  "getFloat32 (single_triangle fill) 112 True = Inr (Num 0)"
  "getFloat32 (single_triangle fill) 116 True = Inr (Num 0)"
  "getFloat32 (single_triangle fill) 120 True = Inr (Num 0)"
  "getFloat32 (single_triangle fill) 124 True = Inr (Num 1)"
  "getFloat32 (single_triangle fill) 128 True = Inr (Num 0)"
  by (simp_all add: getFloat32_def getUint32_def single_triangle_def blank_header_def
      triangle_floats_def nth_append decode_f32_zero decode_f32_one)

lemma short_triangle_length: "length short_triangle = 132"
  by (simp add: short_triangle_def blank_header_def triangle_floats_def)

lemma short_triangle_faces: "getUint32 short_triangle 80 True = Inr 1"
  by (simp add: getUint32_def short_triangle_def blank_header_def nth_append)

lemma short_triangle_floats:
  "getFloat32 short_triangle 84 True = Inr (Num 0)"
  "getFloat32 short_triangle 88 True = Inr (Num 0)"
  "getFloat32 short_triangle 92 True = Inr (Num 1)"
  "getFloat32 short_triangle 96 True = Inr (Num 0)"
  "getFloat32 short_triangle 100 True = Inr (Num 0)"
  "getFloat32 short_triangle 104 True = Inr (Num 0)"
  "getFloat32 short_triangle 108 True = Inr (Num 1)"
  "getFloat32 short_triangle 112 True = Inr (Num 0)"
  "getFloat32 short_triangle 116 True = Inr (Num 0)"
  "getFloat32 short_triangle 120 True = Inr (Num 0)"
  "getFloat32 short_triangle 124 True = Inr (Num 1)"
  "getFloat32 short_triangle 128 True = Inr (Num 0)"
  by (simp_all add: getFloat32_def getUint32_def short_triangle_def blank_header_def
      triangle_floats_def nth_append decode_f32_zero decode_f32_one)

text \<open>One facet, no colour array: what the facet loop leaves, given the twelve floats.\<close>

lemma one_plain_triangle:
  assumes "getFloat32 d 84 True = Inr (Num 0)" "getFloat32 d 88 True = Inr (Num 0)"
    "getFloat32 d 92 True = Inr (Num 1)" "getFloat32 d 96 True = Inr (Num 0)"
    "getFloat32 d 100 True = Inr (Num 0)" "getFloat32 d 104 True = Inr (Num 0)"
    "getFloat32 d 108 True = Inr (Num 1)" "getFloat32 d 112 True = Inr (Num 0)"
    "getFloat32 d 116 True = Inr (Num 0)" "getFloat32 d 120 True = Inr (Num 0)"
    "getFloat32 d 124 True = Inr (Num 1)" "getFloat32 d 128 True = Inr (Num 0)"
    and "getUint32 d 80 True = Inr 1" and "\<forall>j<70. \<not> color_marker d j"
  shows "parse cap d =
     (if 9 \<le> cap then
        Inr \<lparr>hasColors = False,
             position = [Num 0, Num 0, Num 0,  Num 1, Num 0, Num 0,  Num 0, Num 1, Num 0],
             normals = [Num 0, Num 0, Num 1,  Num 0, Num 0, Num 1,  Num 0, Num 0, Num 1],
             colors = None, alpha = None\<rparr>
      else Inl RangeError)"
proof (cases "9 \<le> cap")
  case False
  then have "\<not> unat (1 :: 32 word) * 9 \<le> cap" by simp
  from parse_alloc_fails [OF assms(13) this] False show ?thesis by simp
next
  case True
  define s2 where "s2 = init_locals
     \<lparr>var_vertices := [Num 0, Num 0, Num 0,  Num 1, Num 0, Num 0,  Num 0, Num 1, Num 0],
      var_normals := [Num 0, Num 0, Num 1,  Num 0, Num 0, Num 1,  Num 0, Num 0, Num 1]\<rparr>"
  have "80 \<le> length d" using getUint32_InrD [OF assms(13)] by simp
  then have h: "header_loop cap d (unat (1 :: 32 word)) 0 init_locals = Inr init_locals"
    using assms(14) by (intro header_loop_none) auto
  have ok: "unat (1 :: 32 word) * 9 \<le> cap" using True by simp
  have l: "facet_loop d (unat (1 :: 32 word)) 0
           (init_locals\<lparr>var_vertices := replicate (unat (1 :: 32 word) * 9) (Num 0),
               var_normals := replicate (unat (1 :: 32 word) * 9) (Num 0)\<rparr>) = Inr s2"
    by (simp add: facet_loop_step facet_loop_done facet_body_unroll
        dataOffset_def faceLength_def assms(1-12) facet_color_def init_locals_def
        vertex_body_def s2_def fround_values
        replicate_numeral_Cons list_update_Cons_numeral)
  have "parse cap d = Inr (result_of s2)"
    by (rule parse_eqI [OF assms(13) h ok l])
  then show ?thesis using True by (simp add: result_of_def s2_def init_locals_def)
qed

lemma parse_short_triangle:
  "parse cap short_triangle =
     (if 9 \<le> cap then
        Inr \<lparr>hasColors = False,
             position = [Num 0, Num 0, Num 0,  Num 1, Num 0, Num 0,  Num 0, Num 1, Num 0],
             normals = [Num 0, Num 0, Num 1,  Num 0, Num 0, Num 1,  Num 0, Num 0, Num 1],
             colors = None, alpha = None\<rparr>
      else Inl RangeError)"
  by (rule one_plain_triangle [OF short_triangle_floats short_triangle_faces])
     (simp add: short_triangle_def blank_header_no_marker)

lemma cut_triangle_length: "length cut_triangle = 114"
  by (simp add: cut_triangle_def blank_header_def triangle_floats_def)

lemma cut_triangle_faces: "getUint32 cut_triangle 80 True = Inr 1"
  by (simp add: getUint32_def cut_triangle_def blank_header_def nth_append)

lemma cut_triangle_no_marker: "\<not> (\<exists>i<70. color_marker cut_triangle i)"
  by (simp add: cut_triangle_def blank_header_no_marker)

lemma colored_mesh_length: "length colored_mesh = 234"
  by (simp add: colored_mesh_def color_header_def triangle_floats_def)

lemma colored_mesh_faces: "getUint32 colored_mesh 80 True = Inr 3"
  by (simp add: getUint32_def colored_mesh_def color_header_def nth_append)

lemma colored_mesh_floats:
  "getFloat32 colored_mesh 84 True = Inr (Num 0)"
  "getFloat32 colored_mesh 88 True = Inr (Num 0)"
  "getFloat32 colored_mesh 92 True = Inr (Num 1)"
  "getFloat32 colored_mesh 96 True = Inr (Num 0)"
  "getFloat32 colored_mesh 100 True = Inr (Num 0)"
  "getFloat32 colored_mesh 104 True = Inr (Num 0)"
  "getFloat32 colored_mesh 108 True = Inr (Num 1)"
  "getFloat32 colored_mesh 112 True = Inr (Num 0)"
  "getFloat32 colored_mesh 116 True = Inr (Num 0)"
  "getFloat32 colored_mesh 120 True = Inr (Num 0)"
  "getFloat32 colored_mesh 124 True = Inr (Num 1)"
  "getFloat32 colored_mesh 128 True = Inr (Num 0)"
  "getFloat32 colored_mesh 134 True = Inr (Num 0)"
  "getFloat32 colored_mesh 138 True = Inr (Num 0)"
  "getFloat32 colored_mesh 142 True = Inr (Num 1)"
  "getFloat32 colored_mesh 146 True = Inr (Num 0)"
  "getFloat32 colored_mesh 150 True = Inr (Num 0)"
  "getFloat32 colored_mesh 154 True = Inr (Num 0)"
  "getFloat32 colored_mesh 158 True = Inr (Num 1)"
  "getFloat32 colored_mesh 162 True = Inr (Num 0)"
  "getFloat32 colored_mesh 166 True = Inr (Num 0)"
  "getFloat32 colored_mesh 170 True = Inr (Num 0)"
  "getFloat32 colored_mesh 174 True = Inr (Num 1)"
  "getFloat32 colored_mesh 178 True = Inr (Num 0)"
  "getFloat32 colored_mesh 184 True = Inr (Num 0)"
  "getFloat32 colored_mesh 188 True = Inr (Num 0)"
  "getFloat32 colored_mesh 192 True = Inr (Num 1)"
  "getFloat32 colored_mesh 196 True = Inr (Num 0)"
  "getFloat32 colored_mesh 200 True = Inr (Num 0)"
  "getFloat32 colored_mesh 204 True = Inr (Num 0)"
  "getFloat32 colored_mesh 208 True = Inr (Num 1)"
  "getFloat32 colored_mesh 212 True = Inr (Num 0)"
  "getFloat32 colored_mesh 216 True = Inr (Num 0)"
  "getFloat32 colored_mesh 220 True = Inr (Num 0)"
  "getFloat32 colored_mesh 224 True = Inr (Num 1)"
  "getFloat32 colored_mesh 228 True = Inr (Num 0)"
  by (simp_all add: getFloat32_def getUint32_def nth_append colored_mesh_def color_header_def
      triangle_floats_def decode_f32_zero decode_f32_one)

lemma colored_mesh_attributes:
  "getUint16 colored_mesh 132 True = Inr 0x001F"
  "getUint16 colored_mesh 182 True = Inr 0x8000"
  "getUint16 colored_mesh 232 True = Inr 0x4210"
  by (simp_all add: getUint16_def nth_append colored_mesh_def color_header_def triangle_floats_def)

lemma colored_mesh_marker:
  "color_marker colored_mesh 0" "\<forall>j. 0 < j \<and> j < 70 \<longrightarrow> \<not> color_marker colored_mesh j"
  "colored_mesh ! 6 = 0x80" "colored_mesh ! 7 = 0x80" "colored_mesh ! 8 = 0x80"
  "colored_mesh ! 9 = 0xFF"
proof -
  show "color_marker colored_mesh 0" "colored_mesh ! 6 = 0x80" "colored_mesh ! 7 = 0x80"
    "colored_mesh ! 8 = 0x80" "colored_mesh ! 9 = 0xFF"
    unfolding colored_mesh_def by (rule color_header_marker)+
  show "\<forall>j. 0 < j \<and> j < 70 \<longrightarrow> \<not> color_marker colored_mesh j"
    unfolding colored_mesh_def by (simp add: color_header_no_later_marker)
qed

lemma parse_colored_mesh:
  assumes "27 \<le> cap"
  shows "parse cap colored_mesh =
     Inr \<lparr>hasColors = True,
          position = [Num 0, Num 0, Num 0,  Num 1, Num 0, Num 0,  Num 0, Num 1, Num 0,
                      Num 0, Num 0, Num 0,  Num 1, Num 0, Num 0,  Num 0, Num 1, Num 0,
                      Num 0, Num 0, Num 0,  Num 1, Num 0, Num 0,  Num 0, Num 1, Num 0],
          normals = [Num 0, Num 0, Num 1,  Num 0, Num 0, Num 1,  Num 0, Num 0, Num 1,
                     Num 0, Num 0, Num 1,  Num 0, Num 0, Num 1,  Num 0, Num 0, Num 1,
                     Num 0, Num 0, Num 1,  Num 0, Num 0, Num 1,  Num 0, Num 0, Num 1],
          colors = Some [Num 1, Num 0, Num 0,  Num 1, Num 0, Num 0,  Num 1, Num 0, Num 0,
                         Num (8421505 / 16777216), Num (8421505 / 16777216),
                         Num (8421505 / 16777216),
                         Num (8421505 / 16777216), Num (8421505 / 16777216),
                         Num (8421505 / 16777216),
                         Num (8421505 / 16777216), Num (8421505 / 16777216),
                         Num (8421505 / 16777216),
                         Num (1082401 / 2097152), Num (1082401 / 2097152),
                         Num (1082401 / 2097152),
                         Num (1082401 / 2097152), Num (1082401 / 2097152),
                         Num (1082401 / 2097152),
                         Num (1082401 / 2097152), Num (1082401 / 2097152),
                         Num (1082401 / 2097152)],
          alpha = Some (Num 1)\<rparr>"
proof -
  define s0 where "s0 = init_locals\<lparr>var_hasColors := True,
             var_colors := Some (replicate (unat (3 :: 32 word) * 9) (Num 0)),
             var_defaultR := div_byte (colored_mesh ! (0 + 6)) 255,
             var_defaultG := div_byte (colored_mesh ! (0 + 7)) 255,
             var_defaultB := div_byte (colored_mesh ! (0 + 8)) 255,
             var_alpha := div_byte (colored_mesh ! (0 + 9)) 255\<rparr>"
  define s2 where "s2 = init_locals\<lparr>var_r := Num (1162219258676257 / 2251799813685248),
      var_g := Num (1162219258676257 / 2251799813685248),
      var_b := Num (1162219258676257 / 2251799813685248), var_hasColors := True,
      var_defaultR := Num (282578800148737 / 562949953421312),
      var_defaultG := Num (282578800148737 / 562949953421312),
      var_defaultB := Num (282578800148737 / 562949953421312), var_alpha := Num 1,
      var_colors := Some [Num 1, Num 0, Num 0,  Num 1, Num 0, Num 0,  Num 1, Num 0, Num 0,
                         Num (8421505 / 16777216), Num (8421505 / 16777216),
                         Num (8421505 / 16777216),
                         Num (8421505 / 16777216), Num (8421505 / 16777216),
                         Num (8421505 / 16777216),
                         Num (8421505 / 16777216), Num (8421505 / 16777216),
                         Num (8421505 / 16777216),
                         Num (1082401 / 2097152), Num (1082401 / 2097152),
                         Num (1082401 / 2097152),
                         Num (1082401 / 2097152), Num (1082401 / 2097152),
                         Num (1082401 / 2097152),
                         Num (1082401 / 2097152), Num (1082401 / 2097152),
                         Num (1082401 / 2097152)],
      var_vertices := [Num 0, Num 0, Num 0,  Num 1, Num 0, Num 0,  Num 0, Num 1, Num 0,
                      Num 0, Num 0, Num 0,  Num 1, Num 0, Num 0,  Num 0, Num 1, Num 0,
                      Num 0, Num 0, Num 0,  Num 1, Num 0, Num 0,  Num 0, Num 1, Num 0],
      var_normals := [Num 0, Num 0, Num 1,  Num 0, Num 0, Num 1,  Num 0, Num 0, Num 1,
                     Num 0, Num 0, Num 1,  Num 0, Num 0, Num 1,  Num 0, Num 0, Num 1,
                     Num 0, Num 0, Num 1,  Num 0, Num 0, Num 1,  Num 0, Num 0, Num 1]\<rparr>"
  have ok: "unat (3 :: 32 word) * 9 \<le> cap" using assms by simp
  have "header_loop cap colored_mesh (unat (3 :: 32 word)) 0 init_locals =
      header_match cap colored_mesh (unat (3 :: 32 word)) 0 init_locals"
    using colored_mesh_marker(1,2) by (intro header_loop_last) (simp_all add: colored_mesh_length)
  also have "\<dots> = Inr s0"
    unfolding s0_def by (rule header_match_Inr [OF _ ok]) (simp add: colored_mesh_length)
  finally have h: "header_loop cap colored_mesh (unat (3 :: 32 word)) 0 init_locals = Inr s0" .
  have l: "facet_loop colored_mesh (unat (3 :: 32 word)) 0
           (s0\<lparr>var_vertices := replicate (unat (3 :: 32 word) * 9) (Num 0),
               var_normals := replicate (unat (3 :: 32 word) * 9) (Num 0)\<rparr>) = Inr s2"
    by (simp add: facet_loop_step facet_loop_done facet_body_unroll
        dataOffset_def faceLength_def colored_mesh_floats colored_mesh_attributes
        colored_mesh_marker facet_color_def init_locals_def
        vertex_body_def s0_def s2_def div_byte_values div_u16_values fround_values
        replicate_numeral_Cons list_update_Cons_numeral)
  have "parse cap colored_mesh = Inr (result_of s2)"
    by (rule parse_eqI [OF colored_mesh_faces h ok l])
  then show ?thesis by (simp add: result_of_def s2_def init_locals_def)
qed

lemma two_marker_mesh_length: "length two_marker_mesh = 134"
  by (simp add: two_marker_mesh_def two_marker_header_def triangle_floats_def)

lemma two_marker_mesh_faces: "getUint32 two_marker_mesh 80 True = Inr 1"
  by (simp add: getUint32_def two_marker_mesh_def two_marker_header_def nth_append)

lemma two_marker_mesh_floats:
  "getFloat32 two_marker_mesh 84 True = Inr (Num 0)"
  "getFloat32 two_marker_mesh 88 True = Inr (Num 0)"
  "getFloat32 two_marker_mesh 92 True = Inr (Num 1)"
  "getFloat32 two_marker_mesh 96 True = Inr (Num 0)"
  "getFloat32 two_marker_mesh 100 True = Inr (Num 0)"
  "getFloat32 two_marker_mesh 104 True = Inr (Num 0)"
  "getFloat32 two_marker_mesh 108 True = Inr (Num 1)"
  "getFloat32 two_marker_mesh 112 True = Inr (Num 0)"
  "getFloat32 two_marker_mesh 116 True = Inr (Num 0)"
  "getFloat32 two_marker_mesh 120 True = Inr (Num 0)"
  "getFloat32 two_marker_mesh 124 True = Inr (Num 1)"
  "getFloat32 two_marker_mesh 128 True = Inr (Num 0)"
  by (simp_all add: getFloat32_def getUint32_def nth_append two_marker_mesh_def
      two_marker_header_def triangle_floats_def decode_f32_zero decode_f32_one)

lemma two_marker_mesh_attribute: "getUint16 two_marker_mesh 132 True = Inr 0x8000"
  by (simp add: getUint16_def nth_append two_marker_mesh_def two_marker_header_def
      triangle_floats_def)

lemma two_marker_mesh_markers:
  "color_marker two_marker_mesh 0" "color_marker two_marker_mesh 10"
  "two_marker_mesh ! 6 = 0x80" "two_marker_mesh ! 7 = 0x80"
  "two_marker_mesh ! 8 = 0x80" "two_marker_mesh ! 9 = 0xFF"
  "two_marker_mesh ! 16 = 0xFF" "two_marker_mesh ! 17 = 0x40"
  "two_marker_mesh ! 18 = 0x00" "two_marker_mesh ! 19 = 0x80"
  "\<forall>j. 10 < j \<and> j < 70 \<longrightarrow> \<not> color_marker two_marker_mesh j"
proof -
  show "color_marker two_marker_mesh 0" "color_marker two_marker_mesh 10"
    "two_marker_mesh ! 6 = 0x80" "two_marker_mesh ! 7 = 0x80"
    "two_marker_mesh ! 8 = 0x80" "two_marker_mesh ! 9 = 0xFF"
    "two_marker_mesh ! 16 = 0xFF" "two_marker_mesh ! 17 = 0x40"
    "two_marker_mesh ! 18 = 0x00" "two_marker_mesh ! 19 = 0x80"
    unfolding two_marker_mesh_def by (rule two_marker_header_markers)+
  show "\<forall>j. 10 < j \<and> j < 70 \<longrightarrow> \<not> color_marker two_marker_mesh j"
    unfolding two_marker_mesh_def by (simp add: two_marker_header_no_later_marker)
qed

lemma parse_two_marker_mesh:
  assumes "9 \<le> cap"
  shows "parse cap two_marker_mesh =
     Inr \<lparr>hasColors = True,
          position = [Num 0, Num 0, Num 0,  Num 1, Num 0, Num 0,  Num 0, Num 1, Num 0],
          normals = [Num 0, Num 0, Num 1,  Num 0, Num 0, Num 1,  Num 0, Num 0, Num 1],
          colors = Some [Num 1, Num (8421505 / 33554432), Num 0,
                         Num 1, Num (8421505 / 33554432), Num 0,
                         Num 1, Num (8421505 / 33554432), Num 0],
          alpha = Some (Num (282578800148737 / 562949953421312))\<rparr>"
proof -
  define s0 where "s0 = init_locals\<lparr>var_hasColors := True,
             var_colors := Some (replicate (unat (1 :: 32 word) * 9) (Num 0)),
             var_defaultR := div_byte (two_marker_mesh ! (10 + 6)) 255,
             var_defaultG := div_byte (two_marker_mesh ! (10 + 7)) 255,
             var_defaultB := div_byte (two_marker_mesh ! (10 + 8)) 255,
             var_alpha := div_byte (two_marker_mesh ! (10 + 9)) 255\<rparr>"
  define s2 where "s2 = init_locals\<lparr>var_r := Num 1,
      var_g := Num (282578800148737 / 1125899906842624),
      var_b := Num 0, var_hasColors := True,
      var_defaultR := Num 1, var_defaultG := Num (282578800148737 / 1125899906842624),
      var_defaultB := Num 0, var_alpha := Num (282578800148737 / 562949953421312),
      var_colors := Some [Num 1, Num (8421505 / 33554432), Num 0,
                         Num 1, Num (8421505 / 33554432), Num 0,
                         Num 1, Num (8421505 / 33554432), Num 0],
      var_vertices := [Num 0, Num 0, Num 0,  Num 1, Num 0, Num 0,  Num 0, Num 1, Num 0],
      var_normals := [Num 0, Num 0, Num 1,  Num 0, Num 0, Num 1,  Num 0, Num 0, Num 1]\<rparr>"
  have ok: "unat (1 :: 32 word) * 9 \<le> cap" using assms by simp
  have "header_loop cap two_marker_mesh (unat (1 :: 32 word)) 0 init_locals =
      header_match cap two_marker_mesh (unat (1 :: 32 word)) 10 init_locals"
    using two_marker_mesh_markers(2,11)
    by (intro header_loop_last) (simp_all add: two_marker_mesh_length)
  also have "\<dots> = Inr s0"
    unfolding s0_def by (rule header_match_Inr [OF _ ok]) (simp add: two_marker_mesh_length)
  finally have h: "header_loop cap two_marker_mesh (unat (1 :: 32 word)) 0 init_locals = Inr s0" .
  have l: "facet_loop two_marker_mesh (unat (1 :: 32 word)) 0
           (s0\<lparr>var_vertices := replicate (unat (1 :: 32 word) * 9) (Num 0),
               var_normals := replicate (unat (1 :: 32 word) * 9) (Num 0)\<rparr>) = Inr s2"
    by (simp add: facet_loop_step facet_loop_done facet_body_unroll
        dataOffset_def faceLength_def two_marker_mesh_floats two_marker_mesh_attribute
        two_marker_mesh_markers facet_color_def init_locals_def
        vertex_body_def s0_def s2_def div_byte_values div_u16_values fround_values
        replicate_numeral_Cons list_update_Cons_numeral)
  have "parse cap two_marker_mesh = Inr (result_of s2)"
    by (rule parse_eqI [OF two_marker_mesh_faces h ok l])
  then show ?thesis by (simp add: result_of_def s2_def init_locals_def)
qed

lemma empty_mesh_facts:
  "84 \<le> length empty_mesh" "getUint32 empty_mesh 80 True = Inr 0"
  "\<forall>i<70. \<not> color_marker empty_mesh i"
  by (simp_all add: empty_mesh_def blank_header_no_marker)
     (simp_all add: blank_header_def getUint32_def nth_append)

lemma empty_colored_facts:
  "84 \<le> length empty_colored" "getUint32 empty_colored 80 True = Inr 0"
  "color_marker empty_colored 0" "color_marker empty_colored 10"
  "empty_colored ! 9 = 0xFF" "empty_colored ! 19 = 0x80"
  "\<forall>j. 10 < j \<and> j < 70 \<longrightarrow> \<not> color_marker empty_colored j"
proof -
  show "84 \<le> length empty_colored" "getUint32 empty_colored 80 True = Inr 0"
    by (simp_all add: empty_colored_def two_marker_header_def getUint32_def nth_append)
  show "color_marker empty_colored 0" "color_marker empty_colored 10"
    "empty_colored ! 9 = 0xFF" "empty_colored ! 19 = 0x80"
    unfolding empty_colored_def by (rule two_marker_header_markers)+
  show "\<forall>j. 10 < j \<and> j < 70 \<longrightarrow> \<not> color_marker empty_colored j"
    unfolding empty_colored_def by (simp add: two_marker_header_no_later_marker)
qed

lemma late_marker_at:
  assumes "length pre = 66"
  shows "color_marker (pre @ late_marker) 66" "(pre @ late_marker) ! 75 = 0x80"
    "length (pre @ late_marker) = 84" "getUint32 (pre @ late_marker) 80 True = Inr 0"
    "\<forall>j. 66 < j \<and> j < 70 \<longrightarrow> \<not> color_marker (pre @ late_marker) j"
proof -
  have n: "(pre @ late_marker) ! (66 + k) = late_marker ! k" for k
    using assms by (simp add: nth_append)
  show "color_marker (pre @ late_marker) 66"
    using n [of 0] n [of 1] n [of 2] n [of 3] n [of 4] n [of 5]
    by (simp add: color_marker_def late_marker_def)
  show "(pre @ late_marker) ! 75 = 0x80"
    using n [of 9] by (simp add: late_marker_def)
  show "length (pre @ late_marker) = 84" using assms by (simp add: late_marker_def)
  then show "getUint32 (pre @ late_marker) 80 True = Inr 0"
    using n [of 14] n [of 15] n [of 16] n [of 17] by (simp add: getUint32_def late_marker_def)
  show "\<forall>j. 66 < j \<and> j < 70 \<longrightarrow> \<not> color_marker (pre @ late_marker) j"
  proof (intro allI impI)
    fix j :: nat assume "66 < j \<and> j < 70"
    then have "j = 67 \<or> j = 68 \<or> j = 69" by arith
    then show "\<not> color_marker (pre @ late_marker) j"
      using n [of 1] n [of 2] n [of 3]
      by (elim disjE) (simp_all add: color_marker_def late_marker_def)
  qed
qed

lemma no_marker_without_equals:
  assumes "0x3D \<notin> set (take 70 d)" "70 \<le> length d" "i + 6 \<le> 70"
  shows "\<not> color_marker d i"
proof
  assume "color_marker d i"
  then have "d ! (i + 5) = 0x3D" by (simp add: color_marker_def)
  moreover have "take 70 d ! (i + 5) = d ! (i + 5)" using assms(3) by simp
  moreover have "take 70 d ! (i + 5) \<in> set (take 70 d)"
    using assms(2,3) by (intro nth_mem) simp
  ultimately show False using assms(1) by simp
qed

lemma straddle_mesh_facts:
  "length straddle_mesh = 84" "getUint32 straddle_mesh 80 True = Inr 0"
  "color_marker straddle_mesh 66" "straddle_mesh ! 75 = 0x80"
  "\<forall>j. 66 < j \<and> j < 70 \<longrightarrow> \<not> color_marker straddle_mesh j"
  "0x3D \<notin> set (take 70 straddle_mesh)"
  "\<not> (\<exists>i. i + 6 \<le> 70 \<and> color_marker straddle_mesh i)"
proof -
  have l: "length (replicate 66 (0 :: byte)) = 66" by simp
  show "length straddle_mesh = 84" "getUint32 straddle_mesh 80 True = Inr 0"
    "color_marker straddle_mesh 66"
    "\<forall>j. 66 < j \<and> j < 70 \<longrightarrow> \<not> color_marker straddle_mesh j"
    unfolding straddle_mesh_def by (rule late_marker_at [OF l])+
  show "straddle_mesh ! 75 = 0x80"
    using late_marker_at(2) [OF l] by (simp add: straddle_mesh_def)
  show e: "0x3D \<notin> set (take 70 straddle_mesh)"
    by (simp add: straddle_mesh_def late_marker_def)
  have "70 \<le> length straddle_mesh" by (simp add: straddle_mesh_def late_marker_def)
  from no_marker_without_equals [OF e this]
  show "\<not> (\<exists>i. i + 6 \<le> 70 \<and> color_marker straddle_mesh i)" by blast
qed

lemma straddle_colored_facts:
  "length straddle_colored = 84" "getUint32 straddle_colored 80 True = Inr 0"
  "color_marker straddle_colored 0" "straddle_colored ! 9 = 0xFF"
  "color_marker straddle_colored 66" "straddle_colored ! 75 = 0x80"
  "\<forall>j. 66 < j \<and> j < 70 \<longrightarrow> \<not> color_marker straddle_colored j"
  "\<not> (\<exists>i. 0 < i \<and> i + 6 \<le> 70 \<and> color_marker straddle_colored i)"
proof -
  define pre :: "byte list" where
    "pre = [0x43, 0x4F, 0x4C, 0x4F, 0x52, 0x3D, 0x80, 0x80, 0x80, 0xFF] @ replicate 56 0"
  have l: "length pre = 66" by (simp add: pre_def)
  have d: "straddle_colored = pre @ late_marker" by (simp add: straddle_colored_def pre_def)
  show "length straddle_colored = 84" "getUint32 straddle_colored 80 True = Inr 0"
    "color_marker straddle_colored 66"
    "\<forall>j. 66 < j \<and> j < 70 \<longrightarrow> \<not> color_marker straddle_colored j"
    unfolding d by (rule late_marker_at [OF l])+
  show "straddle_colored ! 75 = 0x80"
    using late_marker_at(2) [OF l] by (simp add: d)
  show "color_marker straddle_colored 0" "straddle_colored ! 9 = 0xFF"
    by (simp_all add: straddle_colored_def color_marker_def)
  have e: "0x3D \<notin> set (take 64 (drop 6 straddle_colored))"
    by (simp add: straddle_colored_def late_marker_def)
  show "\<not> (\<exists>i. 0 < i \<and> i + 6 \<le> 70 \<and> color_marker straddle_colored i)"
  proof
    assume "\<exists>i. 0 < i \<and> i + 6 \<le> 70 \<and> color_marker straddle_colored i"
    then obtain i where i: "0 < i" "i + 6 \<le> 70" "color_marker straddle_colored i" by blast
    have len: "length straddle_colored = 84" unfolding d using l by (simp add: late_marker_def)
    have "straddle_colored ! (i + 5) = 0x3D" using i(3) by (simp add: color_marker_def)
    moreover have "take 64 (drop 6 straddle_colored) ! (i - 1) = straddle_colored ! (i + 5)"
      using i(1,2) len by (simp add: add.commute)
    moreover have "take 64 (drop 6 straddle_colored) ! (i - 1) \<in> set (take 64 (drop 6 straddle_colored))"
      using i(1,2) len by (intro nth_mem) simp
    ultimately show False using e by simp
  qed
qed


subsection \<open>The heap loader and the loader on bytes\<close>

lemma seq_Return: "m h = Return x h' \<Longrightarrow> seq m f h = f x h'"
  by (simp add: seq_def)

lemma seq_Throw: "m h = Throw err h' \<Longrightarrow> seq m f h = Throw err h'"
  by (simp add: seq_def)

lemma seq_store [simp]: "seq (store a i x) f h = f () (wr a i x h)"
  by (simp add: seq_def store_def)

lemma seq_ret [simp]: "seq (ret x) f h = f x h"
  by (simp add: seq_def ret_def)

lemma wr_length [simp]: "length (wr a i x h) = length h"
  by (simp add: wr_def)

lemma wr_nth_other: "b \<noteq> a \<Longrightarrow> wr a i x h ! b = h ! b"
  by (simp add: wr_def)

lemma wr_floats_same:
  "a < length h \<Longrightarrow> floats_of (wr a i x h) a = (floats_of h a)[i := fround x]"
  by (simp add: wr_def floats_of_def)

lemma wr_floats_other: "b \<noteq> a \<Longrightarrow> floats_of (wr a i x h) b = floats_of h b"
  by (simp add: wr_def floats_of_def)

lemma wr_buffer_other: "b \<noteq> a \<Longrightarrow> buffer_of (wr a i x h) b = buffer_of h b"
  by (simp add: wr_def buffer_of_def)

lemma wr_is_array: "is_array h b \<Longrightarrow> is_array (wr a i x h) b"
  by (cases "b = a") (auto simp: is_array_def wr_def)

lemma same_below_refl: "n \<le> length h \<Longrightarrow> same_below n h h"
  by (simp add: same_below_def)

lemma same_below_trans: "same_below n h h1 \<Longrightarrow> same_below n h1 h2 \<Longrightarrow> same_below n h h2"
  by (simp add: same_below_def)

lemma same_below_wr: "n \<le> a \<Longrightarrow> same_below n h h' \<Longrightarrow> same_below n h (wr a i x h')"
  by (auto simp: same_below_def wr_nth_other)

lemma seq_view':
  "seq (view data rd) f h =
     (case rd (buffer_of h data) of Inl err \<Rightarrow> Throw err h | Inr x \<Rightarrow> f x h)"
  by (simp add: seq_def view_def split: sum.splits)

lemma facet_inv_facts:
  assumes "facet_inv n data bs vertices normals' h v"
  shows "buffer_of h data = bs" "data \<noteq> vertices" "data \<noteq> normals'" "vertices \<noteq> normals'"
    "vertices < length h" "normals' < length h" "n \<le> vertices" "n \<le> normals'" "n \<le> length h"
    "ref_colors v = Some c \<Longrightarrow> c \<noteq> data \<and> c \<noteq> vertices \<and> c \<noteq> normals' \<and> c < length h \<and> n \<le> c"
  using assms by (auto simp: facet_inv_def buffer_of_def is_array_def)

lemma facet_inv_wr:
  assumes "facet_inv n data bs vertices normals' h v" "n \<le> a"
  shows "facet_inv n data bs vertices normals' (wr a i x h) v"
  using assms by (auto simp: facet_inv_def wr_nth_other wr_is_array)

lemma facet_inv_locals:
  assumes "facet_inv n data bs vertices normals' h v" "ref_colors v' = ref_colors v"
  shows "facet_inv n data bs vertices normals' h v'"
  using assms by (simp add: facet_inv_def)

lemma vertex_body_h_corres:
  assumes "facet_inv n data bs vertices normals' h v"
  shows "corres (\<lambda>h' v'. facet_inv n data bs vertices normals' h' v' \<and> ref_colors v' = ref_colors v)
           (abs_facet vertices normals') n h
           (vertex_body_h data vertices normals' start face normal i v h)
           (vertex_body bs start face normal i (abs_facet vertices normals' h v))"
proof -
  note f = facet_inv_facts [OF assms]
  obtain nx ny nz where normal: "normal = (nx, ny, nz)" by (cases normal) auto
  define c where "c = face * 3 * 3 + (i - 1) * 3"
  define vs where "vs = start + i * 12"
  have hdef: "vertex_body_h data vertices normals' start face normal i v =
      seq (view data (\<lambda>d. getFloat32 d vs True)) (\<lambda>x.
      seq (store vertices c x) (\<lambda>_.
      seq (view data (\<lambda>d. getFloat32 d (vs + 4) True)) (\<lambda>y.
      seq (store vertices (c + 1) y) (\<lambda>_.
      seq (view data (\<lambda>d. getFloat32 d (vs + 8) True)) (\<lambda>z.
      seq (store vertices (c + 2) z) (\<lambda>_.
      seq (store normals' c (fst normal)) (\<lambda>_.
      seq (store normals' (c + 1) (fst (snd normal))) (\<lambda>_.
      seq (store normals' (c + 2) (snd (snd normal))) (\<lambda>_.
        (case ref_colors v of
           None \<Rightarrow> ret v
         | Some cr \<Rightarrow>
             seq (store cr c (ref_r v)) (\<lambda>_.
             seq (store cr (c + 1) (ref_g v)) (\<lambda>_.
             seq (store cr (c + 2) (ref_b v)) (\<lambda>_.
               ret v)))))))))))))"
    by (simp only: vertex_body_h_def Let_def c_def vs_def)
  have pdef: "vertex_body bs start face normal i s =
      and_then (getFloat32 bs vs True) (\<lambda>x.
      and_then (getFloat32 bs (vs + 4) True) (\<lambda>y.
      and_then (getFloat32 bs (vs + 8) True) (\<lambda>z.
        (case normal of (normalX, normalY, normalZ) \<Rightarrow>
           let s1 = s\<lparr>var_vertices :=
                        (var_vertices s)[c := fround x, c + 1 := fround y, c + 2 := fround z],
                      var_normals :=
                        (var_normals s)[c := fround normalX, c + 1 := fround normalY,
                                        c + 2 := fround normalZ]\<rparr>
           in Inr (case var_colors s1 of
                     None \<Rightarrow> s1
                   | Some cs \<Rightarrow>
                       s1\<lparr>var_colors :=
                             Some (cs[c := fround (var_r s1), c + 1 := fround (var_g s1),
                                      c + 2 := fround (var_b s1)])\<rparr>)))))"
    for s
    by (simp only: vertex_body_def Let_def c_def vs_def)
  note rules = hdef pdef seq_view' corres_def same_below_refl same_below_wr wr_buffer_other
    facet_inv_wr wr_floats_same wr_floats_other abs_facet_def abs_locals_def ret_def
  show ?thesis
  proof (cases "getFloat32 bs vs True")
    case (Inl e)
    then show ?thesis
      using f(1-9) by (simp add: rules)
  next
    case x: (Inr x)
    show ?thesis
    proof (cases "getFloat32 bs (vs + 4) True")
      case (Inl e)
      then show ?thesis
        using f(1-9) x by (simp add: rules)
    next
      case y: (Inr y)
      show ?thesis
      proof (cases "getFloat32 bs (vs + 8) True")
        case (Inl e)
        then show ?thesis
          using f(1-9) x y by (simp add: rules)
      next
        case z: (Inr z)
        show ?thesis
        proof (cases "ref_colors v")
          case None
          then show ?thesis
            using f(1-9) x y z assms
            by (simp add: hdef [unfolded normal] pdef [unfolded normal] rules normal)
        next
          case (Some cr)
          note fc = f(10) [OF Some]
          have inv: "facet_inv n data bs vertices normals' (wr a j u h') v"
            if "facet_inv n data bs vertices normals' h' v" "n \<le> a" for a j u h'
            using that by (rule facet_inv_wr)
          show ?thesis
            using f(1-9) x y z assms fc Some
            by (simp add: hdef [unfolded normal] pdef [unfolded normal] rules normal inv)
        qed
      qed
    qed
  qed
qed

lemma corres_weaken:
  assumes "corres I A n h out res" "\<And>h' v'. I h' v' \<Longrightarrow> I' h' v'"
  shows "corres I' A n h out res"
  using assms by (cases out) (auto simp: corres_def)

lemma corres_same_below:
  assumes "corres I A n h' out res" "same_below n h h'"
  shows "corres I A n h out res"
  using assms by (cases out) (auto simp: corres_def intro: same_below_trans)

lemma corres_Throw:
  "corres I A n h (Throw err h') res \<longleftrightarrow> res = Inl err \<and> same_below n h h'"
  by (simp add: corres_def)

lemma corres_Return:
  "corres I A n h (Return v' h') res \<longleftrightarrow> res = Inr (A h' v') \<and> same_below n h h' \<and> I h' v'"
  by (simp add: corres_def)

lemma vertex_loop_h_corres:
  assumes "facet_inv n data bs vertices normals' h v"
  shows "corres (facet_inv n data bs vertices normals') (abs_facet vertices normals') n h
           (vertex_loop_h data vertices normals' start face normal i v h)
           (vertex_loop bs start face normal i (abs_facet vertices normals' h v))"
  using assms
proof (induction data vertices normals' start face normal i v h rule: vertex_loop_h.induct)
  case (1 data vertices normals' start face normal i v h)
  note inv = "1.prems"
  note len = facet_inv_facts(9) [OF inv]
  show ?case
  proof (cases "i \<le> 3")
    case False
    then show ?thesis
      using inv len
      by (simp add: vertex_loop_h.simps [of _ _ _ _ _ _ i] vertex_loop.simps [of _ _ _ _ i]
          corres_Return same_below_refl)
  next
    case True
    have b: "corres (facet_inv n data bs vertices normals') (abs_facet vertices normals') n h
           (vertex_body_h data vertices normals' start face normal i v h)
           (vertex_body bs start face normal i (abs_facet vertices normals' h v))"
      by (rule corres_weaken [OF vertex_body_h_corres [OF inv]]) simp
    show ?thesis
    proof (cases "vertex_body_h data vertices normals' start face normal i v h")
      case (Throw err h')
      then show ?thesis
        using b True
        by (simp add: vertex_loop_h.simps [of _ _ _ _ _ _ i] vertex_loop.simps [of _ _ _ _ i]
            corres_Throw)
    next
      case (Return v' h')
      with b have p: "vertex_body bs start face normal i (abs_facet vertices normals' h v) =
          Inr (abs_facet vertices normals' h' v')"
        and sb: "same_below n h h'" and inv': "facet_inv n data bs vertices normals' h' v'"
        by (simp_all add: corres_Return)
      have "corres (facet_inv n data bs vertices normals') (abs_facet vertices normals') n h'
           (vertex_loop_h data vertices normals' start face normal (i + 1) v' h')
           (vertex_loop bs start face normal (i + 1) (abs_facet vertices normals' h' v'))"
        by (rule "1.IH" [OF True Return inv'])
      then have "corres (facet_inv n data bs vertices normals') (abs_facet vertices normals') n h
           (vertex_loop_h data vertices normals' start face normal (i + 1) v' h')
           (vertex_loop bs start face normal (i + 1) (abs_facet vertices normals' h' v'))"
        using sb by (rule corres_same_below)
      then show ?thesis
        using True Return p
        by (simp add: vertex_loop_h.simps [of _ _ _ _ _ _ i] vertex_loop.simps [of _ _ _ _ i])
    qed
  qed
qed

lemma facet_color_h_corres:
  assumes "facet_inv n data bs vertices normals' h v"
  shows "corres (facet_inv n data bs vertices normals') (abs_facet vertices normals') n h
           (facet_color_h data start v h)
           (facet_color bs start (abs_facet vertices normals' h v))"
proof -
  note f = facet_inv_facts [OF assms]
  show ?thesis
  proof (cases "ref_colors v")
    case None
    then show ?thesis
      using assms f(9)
      by (simp add: facet_color_h_def facet_color_def abs_facet_def abs_locals_def ret_def
          corres_Return same_below_refl)
  next
    case (Some cr)
    have inv: "facet_inv n data bs vertices normals' h v'" if "ref_colors v' = ref_colors v" for v'
      using assms that by (rule facet_inv_locals)
    show ?thesis
    proof (cases "getUint16 bs (start + 48) True")
      case (Inl e)
      then show ?thesis
        using Some f(1,9)
        by (simp add: facet_color_h_def facet_color_def abs_facet_def abs_locals_def
            seq_view' corres_Throw same_below_refl)
    next
      case (Inr p)
      then show ?thesis
        using Some f(1,9)
        by (simp add: facet_color_h_def facet_color_def abs_facet_def abs_locals_def
            seq_view' ret_def corres_Return same_below_refl inv)
    qed
  qed
qed

lemma facet_body_h_corres:
  assumes "facet_inv n data bs vertices normals' h v"
  shows "corres (facet_inv n data bs vertices normals') (abs_facet vertices normals') n h
           (facet_body_h data vertices normals' face v h)
           (facet_body bs face (abs_facet vertices normals' h v))"
proof -
  note f = facet_inv_facts [OF assms]
  define start where "start = dataOffset + face * faceLength"
  have hdef: "facet_body_h data vertices normals' face v =
      seq (view data (\<lambda>d. getFloat32 d start True)) (\<lambda>normalX.
      seq (view data (\<lambda>d. getFloat32 d (start + 4) True)) (\<lambda>normalY.
      seq (view data (\<lambda>d. getFloat32 d (start + 8) True)) (\<lambda>normalZ.
      seq (facet_color_h data start v) (\<lambda>v'.
        vertex_loop_h data vertices normals' start face (normalX, normalY, normalZ) 1 v'))))"
    by (simp only: facet_body_h_def Let_def start_def)
  have pdef: "facet_body bs face s =
      and_then (getFloat32 bs start True) (\<lambda>normalX.
      and_then (getFloat32 bs (start + 4) True) (\<lambda>normalY.
      and_then (getFloat32 bs (start + 8) True) (\<lambda>normalZ.
      and_then (facet_color bs start s) (\<lambda>s'.
        vertex_loop bs start face (normalX, normalY, normalZ) 1 s'))))" for s
    by (simp only: facet_body_def Let_def start_def)
  note rules = hdef pdef seq_view' corres_Throw same_below_refl
  show ?thesis
  proof (cases "getFloat32 bs start True")
    case (Inl e)
    then show ?thesis using f(1,9) by (simp add: rules)
  next
    case x: (Inr nx)
    show ?thesis
    proof (cases "getFloat32 bs (start + 4) True")
      case (Inl e)
      then show ?thesis using f(1,9) x by (simp add: rules)
    next
      case y: (Inr ny)
      show ?thesis
      proof (cases "getFloat32 bs (start + 8) True")
        case (Inl e)
        then show ?thesis using f(1,9) x y by (simp add: rules)
      next
        case z: (Inr nz)
        note c = facet_color_h_corres [OF assms, of start]
        show ?thesis
        proof (cases "facet_color_h data start v h")
          case (Throw err h')
          then show ?thesis
            using f(1) x y z c by (simp add: rules seq_Throw [of "facet_color_h data start v" h, OF Throw])
        next
          case (Return v1 h1)
          with c have p: "facet_color bs start (abs_facet vertices normals' h v) =
              Inr (abs_facet vertices normals' h1 v1)"
            and sb: "same_below n h h1" and inv1: "facet_inv n data bs vertices normals' h1 v1"
            by (simp_all add: corres_Return)
          have "corres (facet_inv n data bs vertices normals') (abs_facet vertices normals') n h
             (vertex_loop_h data vertices normals' start face (nx, ny, nz) 1 v1 h1)
             (vertex_loop bs start face (nx, ny, nz) 1 (abs_facet vertices normals' h1 v1))"
            by (rule corres_same_below [OF vertex_loop_h_corres [OF inv1] sb])
          then show ?thesis
            using f(1) x y z p by (simp add: hdef pdef seq_view' seq_Return [of "facet_color_h data start v" h, OF Return])
        qed
      qed
    qed
  qed
qed

lemma facet_loop_h_corres:
  assumes "facet_inv n data bs vertices normals' h v"
  shows "corres (facet_inv n data bs vertices normals') (abs_facet vertices normals') n h
           (facet_loop_h data vertices normals' faces face v h)
           (facet_loop bs faces face (abs_facet vertices normals' h v))"
  using assms
proof (induction data vertices normals' faces face v h rule: facet_loop_h.induct)
  case (1 data vertices normals' faces face v h)
  note inv = "1.prems"
  note len = facet_inv_facts(9) [OF inv]
  show ?case
  proof (cases "face < faces")
    case False
    then show ?thesis
      using inv len
      by (simp add: facet_loop_h.simps [of _ _ _ faces face] facet_loop.simps [of _ faces face]
          corres_Return same_below_refl)
  next
    case True
    note b = facet_body_h_corres [OF inv, of face]
    show ?thesis
    proof (cases "facet_body_h data vertices normals' face v h")
      case (Throw err h')
      then show ?thesis
        using b True
        by (simp add: facet_loop_h.simps [of _ _ _ faces face] facet_loop.simps [of _ faces face]
            corres_Throw)
    next
      case (Return v' h')
      with b have p: "facet_body bs face (abs_facet vertices normals' h v) =
          Inr (abs_facet vertices normals' h' v')"
        and sb: "same_below n h h'" and inv': "facet_inv n data bs vertices normals' h' v'"
        by (simp_all add: corres_Return)
      have "corres (facet_inv n data bs vertices normals') (abs_facet vertices normals') n h
           (facet_loop_h data vertices normals' faces (face + 1) v' h')
           (facet_loop bs faces (face + 1) (abs_facet vertices normals' h' v'))"
        by (rule corres_same_below [OF "1.IH" [OF True Return inv'] sb])
      then show ?thesis
        using True Return p
        by (simp add: facet_loop_h.simps [of _ _ _ faces face] facet_loop.simps [of _ faces face])
    qed
  qed
qed

lemma seq_alloc:
  "n \<le> cap \<Longrightarrow>
   seq (alloc_Float32Array cap n) f h = f (length h) (h @ [Float32Array (replicate n (Num 0))])"
  by (simp add: seq_def alloc_Float32Array_def)

lemma seq_alloc_fails:
  "\<not> n \<le> cap \<Longrightarrow> seq (alloc_Float32Array cap n) f h = Throw RangeError h"
  by (simp add: seq_def alloc_Float32Array_def)

lemma buffer_of_append: "a < length h \<Longrightarrow> buffer_of (h @ h') a = buffer_of h a"
  by (simp add: buffer_of_def nth_append)

lemma floats_of_append: "a < length h \<Longrightarrow> floats_of (h @ h') a = floats_of h a"
  by (simp add: floats_of_def nth_append)

lemma floats_of_new: "floats_of (h @ [Float32Array xs]) (length h) = xs"
  by (simp add: floats_of_def)

lemma is_array_new: "is_array (h @ [Float32Array xs]) (length h)"
  by (simp add: is_array_def)

lemma same_below_append: "n \<le> length h \<Longrightarrow> same_below n h (h @ h')"
  by (simp add: same_below_def nth_append)

lemma header_inv_facts:
  assumes "header_inv n data bs h v"
  shows "buffer_of h data = bs" "data < length h" "n \<le> length h" "data < n"
    "ref_colors v = Some c \<Longrightarrow> c < length h \<and> n \<le> c \<and> is_array h c"
  using assms by (auto simp: header_inv_def buffer_of_def is_array_def)

lemma header_match_h_corres:
  assumes "header_inv n data bs h v"
  shows "corres (header_inv n data bs) abs_header n h
           (header_match_h cap data faces index v h)
           (header_match cap bs faces index (abs_header h v))"
proof (cases "faces * 3 * 3 \<le> cap")
  case False
  note f = header_inv_facts [OF assms]
  have "header_match_h cap data faces index v h = Throw RangeError h"
    by (simp only: header_match_h_def seq_alloc_fails [OF False])
  moreover have "header_match cap bs faces index (abs_header h v) = Inl RangeError"
    using False by (simp add: header_match_def new_Float32Array_def)
  ultimately show ?thesis using f(3) by (simp add: corres_Throw same_below_refl)
next
  case ok: True
  note f = header_inv_facts [OF assms]
  define h1 where "h1 = h @ [Float32Array (replicate (faces * 3 * 3) (Num 0))]"
  have b1: "buffer_of h1 data = bs" unfolding h1_def using f(1,2) by (simp add: buffer_of_append)
  have sb: "same_below n h h1" unfolding h1_def by (rule same_below_append [OF f(3)])
  have inv: "header_inv n data bs h1 v'" if "ref_colors v' = Some (length h)" for v'
    using assms that unfolding h1_def
    by (auto simp: header_inv_def nth_append is_array_new)
  have fl: "floats_of h1 (length h) = replicate (faces * 3 * 3) (Num 0)"
    unfolding h1_def by (rule floats_of_new)
  have hdef: "header_match_h cap data faces index v h =
     seq (view data (\<lambda>d. getUint8 d (index + 6))) (\<lambda>x6.
     seq (view data (\<lambda>d. getUint8 d (index + 7))) (\<lambda>x7.
     seq (view data (\<lambda>d. getUint8 d (index + 8))) (\<lambda>x8.
     seq (view data (\<lambda>d. getUint8 d (index + 9))) (\<lambda>x9.
       ret (v\<lparr>ref_hasColors := True,
               ref_colors := Some (length h),
               ref_defaultR := div_byte x6 255,
               ref_defaultG := div_byte x7 255,
               ref_defaultB := div_byte x8 255,
               ref_alpha := div_byte x9 255\<rparr>))))) h1"
    by (simp only: header_match_h_def seq_alloc [OF ok] h1_def)
  have pdef: "header_match cap bs faces index s =
     and_then (getUint8 bs (index + 6)) (\<lambda>x6.
     and_then (getUint8 bs (index + 7)) (\<lambda>x7.
     and_then (getUint8 bs (index + 8)) (\<lambda>x8.
     and_then (getUint8 bs (index + 9)) (\<lambda>x9.
       Inr (s\<lparr>var_hasColors := True,
               var_colors := Some (replicate (faces * 3 * 3) (Num 0)),
               var_defaultR := div_byte x6 255,
               var_defaultG := div_byte x7 255,
               var_defaultB := div_byte x8 255,
               var_alpha := div_byte x9 255\<rparr>)))))" for s
    by (simp only: header_match_def new_Float32Array_Inr [OF ok] and_then_Inr)
  show ?thesis
    unfolding hdef pdef using b1 sb
    by (cases "getUint8 bs (index + 6)"; cases "getUint8 bs (index + 7)";
        cases "getUint8 bs (index + 8)"; cases "getUint8 bs (index + 9)")
       (simp_all add: seq_view' corres_Throw corres_Return ret_def abs_header_def
          abs_locals_def fl inv)
qed

lemma header_body_h_corres:
  assumes "header_inv n data bs h v"
  shows "corres (header_inv n data bs) abs_header n h
           (header_body_h cap data faces index v h)
           (header_body cap bs faces index (abs_header h v))"
proof -
  note f = header_inv_facts [OF assms]
  show ?thesis
  proof (cases "header_test bs index")
    case (Inl e)
    then show ?thesis
      using f(1,3)
      by (simp add: header_body_h_def header_body_def seq_view' corres_Throw same_below_refl)
  next
    case (Inr found)
    show ?thesis
    proof (cases found)
      case True
      then show ?thesis
        using f(1) Inr header_match_h_corres [OF assms, of cap faces index]
        by (simp add: header_body_h_def header_body_def seq_view')
    next
      case False
      then show ?thesis
        using f(1,3) Inr assms
        by (simp add: header_body_h_def header_body_def seq_view' ret_def corres_Return
            same_below_refl)
    qed
  qed
qed

lemma header_loop_h_corres:
  assumes "header_inv n data bs h v"
  shows "corres (header_inv n data bs) abs_header n h
           (header_loop_h cap data faces index v h)
           (header_loop cap bs faces index (abs_header h v))"
  using assms
proof (induction cap data faces index v h rule: header_loop_h.induct)
  case (1 cap data faces index v h)
  note inv = "1.prems"
  note len = header_inv_facts(3) [OF inv]
  show ?case
  proof (cases "index < 80 - 10")
    case False
    then show ?thesis
      using inv len
      by (simp add: header_loop_h.simps [of _ _ faces index] header_loop.simps [of _ _ faces index]
          corres_Return same_below_refl)
  next
    case True
    note b = header_body_h_corres [OF inv, of cap faces index]
    show ?thesis
    proof (cases "header_body_h cap data faces index v h")
      case (Throw err h')
      then show ?thesis
        using b True
        by (simp add: header_loop_h.simps [of _ _ faces index] header_loop.simps [of _ _ faces index]
            corres_Throw)
    next
      case (Return v' h')
      with b have p: "header_body cap bs faces index (abs_header h v) = Inr (abs_header h' v')"
        and sb: "same_below n h h'" and inv': "header_inv n data bs h' v'"
        by (simp_all add: corres_Return)
      have "corres (header_inv n data bs) abs_header n h
           (header_loop_h cap data faces (index + 1) v' h')
           (header_loop cap bs faces (index + 1) (abs_header h' v'))"
        by (rule corres_same_below [OF "1.IH" [OF True Return inv'] sb])
      then show ?thesis
        using True Return p
        by (simp add: header_loop_h.simps [of _ _ faces index] header_loop.simps [of _ _ faces index])
    qed
  qed
qed

lemma extends_same_below: "extends h h' \<longleftrightarrow> same_below (length h) h h'"
  by (auto simp: extends_def same_below_def)

lemma snapshot_result_of:
  "snapshot h (result_of_h vertices normals' v) = result_of (abs_facet vertices normals' h v)"
  by (cases "ref_colors v")
     (simp_all add: snapshot_def result_of_h_def result_of_def abs_facet_def abs_locals_def)

lemma parse_h_refines:
  assumes "data < length h" "h ! data = ArrayBuffer bs"
  shows "observe (parse_h cap data h) = parse cap bs \<and>
     extends h (heap_after (parse_h cap data h))"
proof -
  define n where "n = length h"
  have b: "buffer_of h data = bs" using assms(2) by (simp add: buffer_of_def)
  have inv0: "header_inv n data bs h init_hlocals"
    using assms by (simp add: header_inv_def n_def init_hlocals_def)
  have a0: "abs_header h init_hlocals = init_locals"
    by (simp add: abs_header_def abs_locals_def init_hlocals_def init_locals_def)
  show ?thesis
  proof (cases "getUint32 bs 80 True")
    case (Inl e)
    then show ?thesis
      using b
      by (simp add: parse_h_def parse_def seq_view' observe_def heap_after_def extends_def)
  next
    case (Inr w)
    define faces where "faces = unat w"
    define k where "k = faces * 3 * 3"
    have hdef: "parse_h cap data h =
        seq (header_loop_h cap data faces 0 init_hlocals) (\<lambda>v0.
        seq (alloc_Float32Array cap k) (\<lambda>vertices.
        seq (alloc_Float32Array cap k) (\<lambda>normals'.
        seq (facet_loop_h data vertices normals' faces 0 v0) (\<lambda>v2.
          ret (result_of_h vertices normals' v2))))) h"
      using b Inr by (simp add: parse_h_def seq_view' Let_def faces_def k_def)
    have pdef: "parse cap bs =
        and_then (header_loop cap bs faces 0 init_locals) (\<lambda>s0.
        and_then (new_Float32Array cap k) (\<lambda>vertices.
        and_then (new_Float32Array cap k) (\<lambda>normals'.
          and_then (facet_loop bs faces 0 (s0\<lparr>var_vertices := vertices, var_normals := normals'\<rparr>))
            (\<lambda>s2. Inr (result_of s2)))))"
      using Inr by (simp add: parse_def Let_def faces_def k_def)
    note hc = header_loop_h_corres [OF inv0, of cap faces 0, unfolded a0]
    show ?thesis
    proof (cases "header_loop_h cap data faces 0 init_hlocals h")
      case (Throw err h1)
      with hc have "header_loop cap bs faces 0 init_locals = Inl err" "same_below n h h1"
        by (simp_all add: corres_Throw)
      then show ?thesis
        unfolding hdef pdef seq_Throw [of "header_loop_h cap data faces 0 init_hlocals" h, OF Throw]
        by (simp add: observe_def heap_after_def extends_same_below n_def)
    next
      case (Return v0 h1)
      with hc have p0: "header_loop cap bs faces 0 init_locals = Inr (abs_header h1 v0)"
        and sb1: "same_below n h h1" and inv1: "header_inv n data bs h1 v0"
        by (simp_all add: corres_Return)
      note f1 = header_inv_facts [OF inv1]
      show ?thesis
      proof (cases "k \<le> cap")
        case False
        have "parse_h cap data h = Throw RangeError h1"
          unfolding hdef seq_Return [of "header_loop_h cap data faces 0 init_hlocals" h, OF Return]
          by (rule seq_alloc_fails [OF False])
        moreover have "parse cap bs = Inl RangeError"
          unfolding pdef p0 by (simp add: new_Float32Array_Inl [OF False])
        ultimately show ?thesis
          using sb1 by (simp add: observe_def heap_after_def extends_same_below n_def)
      next
        case ok: True
        define vertices where "vertices = length h1"
        define normals' where "normals' = length h1 + 1"
        define h3 where "h3 = (h1 @ [Float32Array (replicate k (Num 0))]) @
            [Float32Array (replicate k (Num 0))]"
        have hdef': "parse_h cap data h =
            seq (facet_loop_h data vertices normals' faces 0 v0) (\<lambda>v2.
              ret (result_of_h vertices normals' v2)) h3"
          unfolding hdef seq_Return [of "header_loop_h cap data faces 0 init_hlocals" h, OF Return]
          by (simp add: seq_alloc [OF ok] vertices_def normals'_def h3_def)
        have sb3: "same_below n h h3"
          unfolding h3_def using sb1 f1(3)
          by (auto simp: same_below_def nth_append)
        have fv: "floats_of h3 vertices = replicate k (Num 0)"
          "floats_of h3 normals' = replicate k (Num 0)"
          unfolding h3_def vertices_def normals'_def
          by (simp_all add: floats_of_def nth_append)
        have fc: "floats_of h3 c = floats_of h1 c" if "ref_colors v0 = Some c" for c
          using f1(5) [OF that] unfolding h3_def by (simp add: floats_of_def nth_append)
        have inv3: "facet_inv n data bs vertices normals' h3 v0"
          using inv1 f1(2,3,4)
          unfolding facet_inv_def header_inv_def h3_def vertices_def normals'_def is_array_def
          by (auto simp: nth_append)
        have a3: "abs_facet vertices normals' h3 v0 =
            (abs_header h1 v0)\<lparr>var_vertices := replicate k (Num 0),
                         var_normals := replicate k (Num 0)\<rparr>"
          using fc by (cases "ref_colors v0")
            (simp_all add: abs_facet_def abs_header_def abs_locals_def fv)
        have pdef': "parse cap bs =
            and_then (facet_loop bs faces 0 (abs_facet vertices normals' h3 v0))
              (\<lambda>s2. Inr (result_of s2))"
          unfolding pdef p0 a3 by (simp add: new_Float32Array_Inr [OF ok])
        note fcor = facet_loop_h_corres [OF inv3, of faces 0]
        show ?thesis
        proof (cases "facet_loop_h data vertices normals' faces 0 v0 h3")
          case (Throw err h4)
          with fcor have "facet_loop bs faces 0 (abs_facet vertices normals' h3 v0) = Inl err"
            "same_below n h3 h4"
            by (simp_all add: corres_Throw)
          then show ?thesis
            unfolding hdef' pdef'
              seq_Throw [of "facet_loop_h data vertices normals' faces 0 v0" h3, OF Throw]
            using same_below_trans [OF sb3]
            by (simp add: observe_def heap_after_def extends_same_below n_def)
        next
          case (Return v2 h4)
          with fcor have "facet_loop bs faces 0 (abs_facet vertices normals' h3 v0) =
              Inr (abs_facet vertices normals' h4 v2)" "same_below n h3 h4"
            by (simp_all add: corres_Return)
          then show ?thesis
            unfolding hdef' pdef'
              seq_Return [of "facet_loop_h data vertices normals' faces 0 v0" h3, OF Return]
            using same_below_trans [OF sb3]
            by (simp add: observe_def heap_after_def extends_same_below n_def ret_def
                snapshot_result_of)
        qed
      qed
    qed
  qed
qed


section \<open>The claims\<close>

text \<open>
  Claim C1. The 134-byte buffer made of an 80-byte blank header, the facet count 1 at
  offset 80 (little-endian) and one 50-byte facet record with normal \<open>(0, 0, 1)\<close> and
  vertices \<open>(0, 0, 0)\<close>, \<open>(1, 0, 0)\<close>, \<open>(0, 1, 0)\<close> decodes to
  \<open>position = [0,0,0, 1,0,0, 0,1,0]\<close> and \<open>normals = [0,0,1, 0,0,1, 0,0,1]\<close>, whatever
  byte fills the header, on every host that can allocate an array of nine floats; on
  any other host \<open>new Float32Array(9)\<close> throws.
\<close>

theorem parse_single_triangle:
  "length (single_triangle fill) = 134 \<and>
   parse cap (single_triangle fill) =
     (if 9 \<le> cap then
        Inr \<lparr>hasColors = False,
             position = [Num 0, Num 0, Num 0,  Num 1, Num 0, Num 0,  Num 0, Num 1, Num 0],
             normals = [Num 0, Num 0, Num 1,  Num 0, Num 0, Num 1,  Num 0, Num 0, Num 1],
             colors = None, alpha = None\<rparr>
      else Inl RangeError)"
proof
  show "length (single_triangle fill) = 134" by (rule single_triangle_length)
  show "parse cap (single_triangle fill) =
     (if 9 \<le> cap then
        Inr \<lparr>hasColors = False,
             position = [Num 0, Num 0, Num 0,  Num 1, Num 0, Num 0,  Num 0, Num 1, Num 0],
             normals = [Num 0, Num 0, Num 1,  Num 0, Num 0, Num 1,  Num 0, Num 0, Num 1],
             colors = None, alpha = None\<rparr>
      else Inl RangeError)"
    by (rule one_plain_triangle [OF single_triangle_floats single_triangle_faces])
       (simp add: single_triangle_def blank_header_no_marker)
qed

text \<open>
  Claim C2. Whenever \<open>parse\<close> completes, \<open>position\<close> and \<open>normals\<close> have length
  \<open>facetCount * 9\<close>, \<open>colors\<close>, when present, has that length too, and all these lengths
  are divisible by 9. A buffer of at least \<open>84 + facetCount * 50\<close> bytes is large enough
  for \<open>parse\<close> to complete, when the host can allocate arrays of \<open>facetCount * 9\<close>
  floats.
\<close>

theorem model_lengths:
  assumes "getUint32 d 80 True = Inr w"
  shows "(84 + unat w * 50 \<le> length d \<and> unat w * 9 \<le> cap \<longrightarrow> (\<exists>m. parse cap d = Inr m)) \<and>
     (\<forall>m. parse cap d = Inr m \<longrightarrow>
        length (position m) = unat w * 9 \<and> length (normals m) = unat w * 9 \<and>
        (\<forall>cs. colors m = Some cs \<longrightarrow> length cs = unat w * 9) \<and>
        9 dvd length (position m) \<and> 9 dvd length (normals m) \<and>
        (\<forall>cs. colors m = Some cs \<longrightarrow> 9 dvd length cs))"
proof (intro conjI impI allI)
  assume "84 + unat w * 50 \<le> length d \<and> unat w * 9 \<le> cap"
  then show "\<exists>m. parse cap d = Inr m" using parse_succeeds [OF assms] by blast
next
  fix m assume p: "parse cap d = Inr m"
  from parse_post [OF p assms] obtain s where m: "m = result_of s"
    and sz: "arrays_sized (unat w * 9) s" by blast
  show "length (position m) = unat w * 9" "length (normals m) = unat w * 9"
    using sz by (simp_all add: m result_of_simps arrays_sized_def)
  then show "9 dvd length (position m)" "9 dvd length (normals m)" by simp_all
  fix cs assume "colors m = Some cs"
  then have "var_colors s = Some cs" by (simp add: m result_of_simps split: if_splits)
  then show "length cs = unat w * 9" using sz by (simp add: arrays_sized_def)
  then show "9 dvd length cs" by simp
qed

theorem model_lengths_witness:
  "getUint32 colored_mesh 80 True = Inr 3 \<and>
   84 + unat (3 :: 32 word) * 50 \<le> length colored_mesh \<and> unat (3 :: 32 word) * 9 \<le> (27 :: nat) \<and>
   parse 27 colored_mesh = Inr (projr (parse 27 colored_mesh)) \<and>
   colors (projr (parse 27 colored_mesh)) = Some (the (colors (projr (parse 27 colored_mesh)))) \<and>
   length (position (projr (parse 27 colored_mesh))) = 27 \<and>
   length (normals (projr (parse 27 colored_mesh))) = 27 \<and>
   length (the (colors (projr (parse 27 colored_mesh)))) = 27 \<and>
   9 dvd length (the (colors (projr (parse 27 colored_mesh))))"
  using model_lengths [OF colored_mesh_faces, of 27] parse_colored_mesh [of 27]
  by (simp add: colored_mesh_faces colored_mesh_length)

text \<open>
  Claim C3. Normal broadcast: for every facet \<open>f\<close> below the facet count, the normal
  triples of its three vertices are the three little-endian floats at the start of the
  facet's record, at byte offset \<open>84 + f * 50\<close>.
\<close>

theorem normal_broadcast:
  assumes "parse cap d = Inr m" "getUint32 d 80 True = Inr w" "f < unat w"
  shows "\<forall>j<3. \<forall>k<3. Inr (normals m ! (f * 9 + j * 3 + k)) = getFloat32 d (84 + f * 50 + 4 * k) True"
proof (intro allI impI)
  fix j k :: nat assume j: "j < 3" and k: "k < 3"
  from parse_post [OF assms(1,2)] assms(3) obtain s where m: "m = result_of s"
    and ok: "facet_ok d f s" by blast
  have "j * 3 + k < 9" "(j * 3 + k) mod 3 = k" using j k by simp_all
  with ok have "Inr (var_normals s ! (f * 9 + (j * 3 + k))) = getFloat32 d (84 + f * 50 + 4 * k) True"
    unfolding facet_ok_def by metis
  then show "Inr (normals m ! (f * 9 + j * 3 + k)) = getFloat32 d (84 + f * 50 + 4 * k) True"
    by (simp add: m result_of_simps add.assoc)
qed

theorem normal_broadcast_witness:
  "parse 27 colored_mesh = Inr (projr (parse 27 colored_mesh)) \<and>
   getUint32 colored_mesh 80 True = Inr 3 \<and> (1 :: nat) < unat (3 :: 32 word) \<and>
   Inr (normals (projr (parse 27 colored_mesh)) ! (1 * 9 + 0 * 3 + 2)) =
     getFloat32 colored_mesh (84 + 1 * 50 + 4 * 2) True \<and>
   Inr (normals (projr (parse 27 colored_mesh)) ! (1 * 9 + 1 * 3 + 2)) =
     getFloat32 colored_mesh (84 + 1 * 50 + 4 * 2) True \<and>
   Inr (normals (projr (parse 27 colored_mesh)) ! (1 * 9 + 2 * 3 + 2)) =
     getFloat32 colored_mesh (84 + 1 * 50 + 4 * 2) True \<and>
   getFloat32 colored_mesh (84 + 1 * 50 + 4 * 2) True = Inr (Num 1)"
proof -
  have p: "parse 27 colored_mesh = Inr (projr (parse 27 colored_mesh))"
    using parse_colored_mesh [of 27] by simp
  from normal_broadcast [OF p colored_mesh_faces, of 1] p show ?thesis
    using parse_colored_mesh [of 27]
    by (simp add: colored_mesh_faces colored_mesh_floats)
qed

text \<open>
  Claim C4, amended. Per-facet colour: when colours are enabled and the packed colour of
  facet \<open>f\<close> (16 bits, little-endian, at offset 48 of its record) has bit 15 clear, the
  three vertices of the facet get the red, green and blue of the packed colour, bits 0
  to 4, 5 to 9 and 10 to 14, each divided by 31 and, as an element of a \<open>Float32Array\<close>,
  rounded to binary32. The packed colour \<open>0x001F\<close> (red 31, green 0, blue 0) gives
  \<open>(1, 0, 0)\<close>.
\<close>

theorem facet_color_override:
  assumes "parse cap d = Inr m" "getUint32 d 80 True = Inr w" "f < unat w" "hasColors m"
    "getUint16 d (84 + f * 50 + 48) True = Inr packedColor" "packedColor AND 0x8000 = 0"
  shows "\<exists>cs. colors m = Some cs \<and>
     (\<forall>j<3. cs ! (f * 9 + j * 3) =
          fround (round_f64 (of_nat (unat (packedColor AND 0x1F)) / 31)) \<and>
        cs ! (f * 9 + j * 3 + 1) =
          fround (round_f64 (of_nat (unat (drop_bit 5 packedColor AND 0x1F)) / 31)) \<and>
        cs ! (f * 9 + j * 3 + 2) =
          fround (round_f64 (of_nat (unat (drop_bit 10 packedColor AND 0x1F)) / 31))) \<and>
     (packedColor = 0x001F \<longrightarrow>
        (\<forall>j<3. cs ! (f * 9 + j * 3) = Num 1 \<and> cs ! (f * 9 + j * 3 + 1) = Num 0 \<and>
           cs ! (f * 9 + j * 3 + 2) = Num 0))"
proof -
  from parse_colors [OF assms(1,2,4)] assms(3,5) obtain s0 cs where
    c: "colors m = Some cs" and
    rgb: "\<forall>k<9. cs ! (f * 9 + k) = fround (facet_rgb s0 packedColor (k mod 3))" by fastforce
  have 1: "\<forall>j<3. cs ! (f * 9 + j * 3) =
          fround (round_f64 (of_nat (unat (packedColor AND 0x1F)) / 31)) \<and>
        cs ! (f * 9 + j * 3 + 1) =
          fround (round_f64 (of_nat (unat (drop_bit 5 packedColor AND 0x1F)) / 31)) \<and>
        cs ! (f * 9 + j * 3 + 2) =
          fround (round_f64 (of_nat (unat (drop_bit 10 packedColor AND 0x1F)) / 31))"
  proof (intro allI impI)
    fix j :: nat assume j: "j < 3"
    have "cs ! (f * 9 + (j * 3)) = fround (facet_rgb s0 packedColor 0)"
      "cs ! (f * 9 + (j * 3 + 1)) = fround (facet_rgb s0 packedColor 1)"
      "cs ! (f * 9 + (j * 3 + 2)) = fround (facet_rgb s0 packedColor 2)"
      using rgb vertex_component [OF j] by metis+
    then show "cs ! (f * 9 + j * 3) =
          fround (round_f64 (of_nat (unat (packedColor AND 0x1F)) / 31)) \<and>
        cs ! (f * 9 + j * 3 + 1) =
          fround (round_f64 (of_nat (unat (drop_bit 5 packedColor AND 0x1F)) / 31)) \<and>
        cs ! (f * 9 + j * 3 + 2) =
          fround (round_f64 (of_nat (unat (drop_bit 10 packedColor AND 0x1F)) / 31))"
      using assms(6) by (simp add: facet_rgb_simps add.assoc div_u16_def)
  qed
  have 2: "\<forall>j<3. cs ! (f * 9 + j * 3) = Num 1 \<and> cs ! (f * 9 + j * 3 + 1) = Num 0 \<and>
           cs ! (f * 9 + j * 3 + 2) = Num 0" if "packedColor = 0x001F"
    using 1 unfolding that by (simp add: round_f64_one round_f64_zero fround_values)
  from c 1 2 show ?thesis by blast
qed

theorem facet_color_override_witness:
  "parse 27 colored_mesh = Inr (projr (parse 27 colored_mesh)) \<and>
   getUint32 colored_mesh 80 True = Inr 3 \<and> hasColors (projr (parse 27 colored_mesh)) \<and>
   (0 :: nat) < unat (3 :: 32 word) \<and>
   getUint16 colored_mesh (84 + 0 * 50 + 48) True = Inr 0x001F \<and>
   (0x001F :: 16 word) AND 0x8000 = 0 \<and>
   the (colors (projr (parse 27 colored_mesh))) ! (0 * 9 + 2 * 3) = Num 1 \<and>
   the (colors (projr (parse 27 colored_mesh))) ! (0 * 9 + 2 * 3 + 1) = Num 0 \<and>
   the (colors (projr (parse 27 colored_mesh))) ! (0 * 9 + 2 * 3 + 2) = Num 0 \<and>
   (2 :: nat) < unat (3 :: 32 word) \<and>
   getUint16 colored_mesh (84 + 2 * 50 + 48) True = Inr 0x4210 \<and>
   (0x4210 :: 16 word) AND 0x8000 = 0 \<and>
   the (colors (projr (parse 27 colored_mesh))) ! (2 * 9 + 1 * 3) =
     fround (round_f64 (of_nat (unat ((0x4210 :: 16 word) AND 0x1F)) / 31)) \<and>
   the (colors (projr (parse 27 colored_mesh))) ! (2 * 9 + 1 * 3) = Num (1082401 / 2097152) \<and>
   the (colors (projr (parse 27 colored_mesh))) ! (2 * 9 + 1 * 3 + 1) = Num (1082401 / 2097152) \<and>
   the (colors (projr (parse 27 colored_mesh))) ! (2 * 9 + 1 * 3 + 2) = Num (1082401 / 2097152)"
proof -
  have p: "parse 27 colored_mesh = Inr (projr (parse 27 colored_mesh))"
    using parse_colored_mesh [of 27] by simp
  have h: "hasColors (projr (parse 27 colored_mesh))"
    using parse_colored_mesh [of 27] by simp
  have a: "(0x001F :: 16 word) AND 0x8000 = 0" "(0x4210 :: 16 word) AND 0x8000 = 0" by simp_all
  from facet_color_override [OF p colored_mesh_faces _ h, of 0 "0x001F"]
    facet_color_override [OF p colored_mesh_faces _ h, of 2 "0x4210"]
  show ?thesis
    using parse_colored_mesh [of 27]
    by (simp add: colored_mesh_faces colored_mesh_attributes round_f64_16_31 round_f64_one
        round_f64_zero fround_values)
qed

text \<open>
  Claim C4 as stated fails where the quotient is no binary32: in this mesh the third
  facet has the packed colour \<open>0x4210\<close>, bit 15 clear and red 16, and the red of its
  vertices is \<open>1082401 / 2097152\<close>, which is neither \<open>16 / 31\<close> nor the double
  \<open>16 / 31\<close> of JavaScript.
\<close>

theorem facet_color_override_counterexample:
  "getUint32 colored_mesh 80 True = Inr 3 \<and>
   getUint16 colored_mesh (84 + 2 * 50 + 48) True = Inr 0x4210 \<and>
   (0x4210 :: 16 word) AND 0x8000 = 0 \<and> unat ((0x4210 :: 16 word) AND 0x1F) = 16 \<and>
   hasColors (projr (parse 27 colored_mesh)) \<and>
   the (colors (projr (parse 27 colored_mesh))) ! (2 * 9 + 0 * 3) = Num (1082401 / 2097152) \<and>
   Num (1082401 / 2097152) \<noteq> Num (16 / 31) \<and>
   Num (1082401 / 2097152) \<noteq> round_f64 (16 / 31)"
  using parse_colored_mesh [of 27]
  by (simp add: colored_mesh_faces colored_mesh_attributes round_f64_16_31)

text \<open>
  Claim C5, amended. When the header holds \<open>COLOR=\<close> followed by \<open>0x80, 0x80, 0x80, 0xFF\<close>
  at offset 0 and no further full marker starts at an offset in \<open>[1, 70)\<close>, a decoded
  model has \<open>hasColors = true\<close> and \<open>alpha = 1\<close>, and every facet whose packed colour has
  bit 15 set has at its three vertices the colour \<open>(x, x, x)\<close> with
  \<open>x = 8421505 / 16777216\<close>, the binary32 nearest to \<open>128 / 255\<close>.
\<close>

theorem header_default_color:
  assumes "parse cap d = Inr m" "getUint32 d 80 True = Inr w"
    "color_marker d 0" "d ! 6 = 0x80" "d ! 7 = 0x80" "d ! 8 = 0x80" "d ! 9 = 0xFF"
    "\<forall>j. 0 < j \<and> j < 70 \<longrightarrow> \<not> color_marker d j"
  shows "hasColors m \<and> alpha m = Some (Num 1) \<and>
     (\<exists>cs. colors m = Some cs \<and>
        (\<forall>f<unat w. \<forall>p. getUint16 d (84 + f * 50 + 48) True = Inr p \<and> p AND 0x8000 \<noteq> 0 \<longrightarrow>
           (\<forall>j<3. cs ! (f * 9 + j * 3) = Num (8421505 / 16777216) \<and>
              cs ! (f * 9 + j * 3 + 1) = Num (8421505 / 16777216) \<and>
              cs ! (f * 9 + j * 3 + 2) = Num (8421505 / 16777216))))"
proof -
  from default_color [OF assms(1,2) _ assms(3,8)] show ?thesis
    by (simp add: assms(4,5,6,7) div_byte_values fround_values)
qed

theorem header_default_color_witness:
  "parse 27 colored_mesh = Inr (projr (parse 27 colored_mesh)) \<and>
   getUint32 colored_mesh 80 True = Inr 3 \<and> color_marker colored_mesh 0 \<and>
   colored_mesh ! 6 = 0x80 \<and> colored_mesh ! 7 = 0x80 \<and> colored_mesh ! 8 = 0x80 \<and>
   colored_mesh ! 9 = 0xFF \<and> (1 :: nat) < unat (3 :: 32 word) \<and>
   getUint16 colored_mesh (84 + 1 * 50 + 48) True = Inr 0x8000 \<and>
   (0x8000 :: 16 word) AND 0x8000 \<noteq> 0 \<and>
   hasColors (projr (parse 27 colored_mesh)) \<and>
   alpha (projr (parse 27 colored_mesh)) = Some (Num 1) \<and>
   the (colors (projr (parse 27 colored_mesh))) ! (1 * 9 + 2 * 3) = Num (8421505 / 16777216) \<and>
   the (colors (projr (parse 27 colored_mesh))) ! (1 * 9 + 2 * 3 + 1) = Num (8421505 / 16777216) \<and>
   the (colors (projr (parse 27 colored_mesh))) ! (1 * 9 + 2 * 3 + 2) = Num (8421505 / 16777216)"
proof -
  have p: "parse 27 colored_mesh = Inr (projr (parse 27 colored_mesh))"
    using parse_colored_mesh [of 27] by simp
  from header_default_color [OF p colored_mesh_faces colored_mesh_marker(1,3-6)
      colored_mesh_marker(2)]
  show ?thesis
    using parse_colored_mesh [of 27]
    by (simp add: colored_mesh_faces colored_mesh_attributes colored_mesh_marker)
qed

text \<open>
  Claim C5 as stated fails when a second marker follows: this buffer has the grey, opaque
  marker at offset 0 and a packed colour with bit 15 set, yet its vertex colours are
  \<open>(1, 8421505 / 33554432, 0)\<close> and its alpha is the double \<open>128 / 255\<close>, from the marker
  at offset 10.
\<close>

theorem header_default_color_counterexample:
  "color_marker two_marker_mesh 0 \<and>
   two_marker_mesh ! 6 = 0x80 \<and> two_marker_mesh ! 7 = 0x80 \<and> two_marker_mesh ! 8 = 0x80 \<and>
   two_marker_mesh ! 9 = 0xFF \<and>
   getUint16 two_marker_mesh (84 + 48) True = Inr 0x8000 \<and> (0x8000 :: 16 word) AND 0x8000 \<noteq> 0 \<and>
   parse 9 two_marker_mesh =
     Inr \<lparr>hasColors = True,
          position = [Num 0, Num 0, Num 0,  Num 1, Num 0, Num 0,  Num 0, Num 1, Num 0],
          normals = [Num 0, Num 0, Num 1,  Num 0, Num 0, Num 1,  Num 0, Num 0, Num 1],
          colors = Some [Num 1, Num (8421505 / 33554432), Num 0,
                         Num 1, Num (8421505 / 33554432), Num 0,
                         Num 1, Num (8421505 / 33554432), Num 0],
          alpha = Some (Num (282578800148737 / 562949953421312))\<rparr> \<and>
   Num 1 \<noteq> Num (128 / 255) \<and> Num 1 \<noteq> Num (8421505 / 16777216) \<and>
   Num (282578800148737 / 562949953421312) \<noteq> Num 1"
  using parse_two_marker_mesh [of 9]
  by (simp add: two_marker_mesh_markers two_marker_mesh_attribute)

text \<open>
  Claim C6. Several markers: the header scan goes on after a match, and the default red,
  green, blue and alpha of the decoded model come from the last offset in \<open>[0, 70)\<close> at
  which the full \<open>COLOR=\<close> pattern starts: alpha is the byte at that offset plus 9
  divided by 255, and the colour of a facet with bit 15 set is made of the bytes at that
  offset plus 6, 7 and 8, divided by 255 and rounded to binary32 in the array.
\<close>

theorem last_marker_wins:
  assumes "parse cap d = Inr m" "getUint32 d 80 True = Inr w" "i < 70" "color_marker d i"
    "\<forall>j. i < j \<and> j < 70 \<longrightarrow> \<not> color_marker d j"
  shows "header_loop cap d (unat w) 0 init_locals = header_match cap d (unat w) i init_locals \<and>
     hasColors m \<and> alpha m = Some (round_f64 (of_nat (unat (d ! (i + 9))) / 255)) \<and>
     (\<exists>cs. colors m = Some cs \<and>
        (\<forall>f<unat w. \<forall>p. getUint16 d (84 + f * 50 + 48) True = Inr p \<and> p AND 0x8000 \<noteq> 0 \<longrightarrow>
           (\<forall>j<3. cs ! (f * 9 + j * 3) = fround (round_f64 (of_nat (unat (d ! (i + 6))) / 255)) \<and>
              cs ! (f * 9 + j * 3 + 1) = fround (round_f64 (of_nat (unat (d ! (i + 7))) / 255)) \<and>
              cs ! (f * 9 + j * 3 + 2) = fround (round_f64 (of_nat (unat (d ! (i + 8))) / 255)))))"
proof -
  have "80 \<le> length d" using getUint32_InrD [OF assms(2)] by simp
  then have "header_loop cap d (unat w) 0 init_locals = header_match cap d (unat w) i init_locals"
    using assms(3,4,5) by (intro header_loop_last) auto
  with default_color [OF assms] show ?thesis by (simp add: div_byte_def)
qed

theorem last_marker_wins_witness:
  "parse 9 two_marker_mesh = Inr (projr (parse 9 two_marker_mesh)) \<and>
   getUint32 two_marker_mesh 80 True = Inr 1 \<and>
   color_marker two_marker_mesh 0 \<and> (10 :: nat) < 70 \<and> color_marker two_marker_mesh 10 \<and>
   two_marker_mesh ! (0 + 9) = 0xFF \<and> two_marker_mesh ! (10 + 9) = 0x80 \<and>
   two_marker_mesh ! (0 + 7) = 0x80 \<and> two_marker_mesh ! (10 + 7) = 0x40 \<and>
   (0 :: nat) < unat (1 :: 32 word) \<and>
   getUint16 two_marker_mesh (84 + 0 * 50 + 48) True = Inr 0x8000 \<and>
   (0x8000 :: 16 word) AND 0x8000 \<noteq> 0 \<and>
   header_loop 9 two_marker_mesh (unat (1 :: 32 word)) 0 init_locals =
     header_match 9 two_marker_mesh (unat (1 :: 32 word)) 10 init_locals \<and>
   hasColors (projr (parse 9 two_marker_mesh)) \<and>
   alpha (projr (parse 9 two_marker_mesh)) =
     Some (round_f64 (of_nat (unat (two_marker_mesh ! (10 + 9))) / 255)) \<and>
   alpha (projr (parse 9 two_marker_mesh)) = Some (Num (282578800148737 / 562949953421312)) \<and>
   the (colors (projr (parse 9 two_marker_mesh))) ! (0 * 9 + 2 * 3 + 1) =
     fround (round_f64 (of_nat (unat (two_marker_mesh ! (10 + 7))) / 255)) \<and>
   the (colors (projr (parse 9 two_marker_mesh))) ! (0 * 9 + 2 * 3) = Num 1 \<and>
   the (colors (projr (parse 9 two_marker_mesh))) ! (0 * 9 + 2 * 3 + 1) = Num (8421505 / 33554432) \<and>
   the (colors (projr (parse 9 two_marker_mesh))) ! (0 * 9 + 2 * 3 + 2) = Num 0"
proof -
  have p: "parse 9 two_marker_mesh = Inr (projr (parse 9 two_marker_mesh))"
    using parse_two_marker_mesh [of 9] by simp
  from last_marker_wins [OF p two_marker_mesh_faces _ two_marker_mesh_markers(2,11)]
  show ?thesis
    using parse_two_marker_mesh [of 9]
    by (simp add: two_marker_mesh_faces two_marker_mesh_attribute two_marker_mesh_markers
        round_f64_128_255 round_f64_64_255 round_f64_one round_f64_zero fround_values)
qed

text \<open>
  Claim C7, amended. No facet, no marker: a buffer of at least 84 bytes with the facet
  count 0 and no full \<open>COLOR=\<close> pattern starting at an offset in \<open>[0, 70)\<close> (the six bytes
  of a pattern that starts at 69 end at offset 74) decodes to empty \<open>position\<close> and
  \<open>normals\<close>, \<open>hasColors = false\<close>, and neither \<open>colors\<close> nor \<open>alpha\<close>.
\<close>

theorem zero_facets_no_marker:
  assumes "84 \<le> length d" "getUint32 d 80 True = Inr 0" "\<forall>i<70. \<not> color_marker d i"
  shows "parse cap d =
     Inr \<lparr>hasColors = False, position = [], normals = [], colors = None, alpha = None\<rparr>"
  using assms by (rule parse_zero_facets_plain)

theorem zero_facets_no_marker_witness:
  "84 \<le> length empty_mesh \<and> getUint32 empty_mesh 80 True = Inr 0 \<and>
   \<not> color_marker empty_mesh 0 \<and> \<not> color_marker empty_mesh 69 \<and>
   parse 0 empty_mesh =
     Inr \<lparr>hasColors = False, position = [], normals = [], colors = None, alpha = None\<rparr>"
  using zero_facets_no_marker [OF empty_mesh_facts, of 0] empty_mesh_facts by simp

text \<open>
  Claim C7 as stated fails for a marker that starts in the first 70 bytes of the header
  and ends behind them: this buffer of 84 bytes has the facet count 0 and the pattern
  at offsets 66 to 71, so that its first 70 bytes hold no full pattern (they hold no
  \<open>=\<close> at all), and it decodes to \<open>hasColors = true\<close> with \<open>colors\<close> and \<open>alpha\<close>.
\<close>

theorem zero_facets_no_marker_counterexample:
  "84 \<le> length straddle_mesh \<and> getUint32 straddle_mesh 80 True = Inr 0 \<and>
   0x3D \<notin> set (take 70 straddle_mesh) \<and>
   \<not> (\<exists>i. i + 6 \<le> 70 \<and> color_marker straddle_mesh i) \<and>
   (\<forall>cap. parse cap straddle_mesh =
      Inr \<lparr>hasColors = True, position = [], normals = [], colors = Some [],
           alpha = Some (Num (282578800148737 / 562949953421312))\<rparr>)"
proof -
  have "parse cap straddle_mesh =
      Inr \<lparr>hasColors = True, position = [], normals = [], colors = Some [],
           alpha = Some (Num (282578800148737 / 562949953421312))\<rparr>" for cap
    using parse_zero_facets_marker [OF _ straddle_mesh_facts(2) _ straddle_mesh_facts(3,5), of cap]
    by (simp add: straddle_mesh_facts div_byte_values)
  then show ?thesis using straddle_mesh_facts by simp
qed

text \<open>
  Claim C8, amended. No bounds check precedes the facet loop. With a facet count above
  0, \<open>parse\<close> raises \<open>RangeError\<close> exactly when the host cannot allocate an array of
  \<open>facetCount * 9\<close> floats, or the buffer is shorter than \<open>84 + facetCount * 50\<close> bytes
  and a colour marker starts in \<open>[0, 70)\<close>, or shorter than \<open>84 + facetCount * 50 - 2\<close>
  bytes and none does: the two attribute bytes of a facet are read only when colours are
  enabled. When the arrays can be allocated, the header scan completes and the
  \<open>RangeError\<close> is that of a read in the facet loop.
\<close>

theorem truncated_buffer_raises:
  assumes "getUint32 d 80 True = Inr w" "0 < unat w"
  shows "(parse cap d = Inl RangeError \<longleftrightarrow>
        cap < unat w * 9 \<or>
        length d < 84 + unat w * 50 - (if \<exists>i<70. color_marker d i then 0 else 2)) \<and>
     (unat w * 9 \<le> cap \<longrightarrow>
        (\<exists>s0. header_loop cap d (unat w) 0 init_locals = Inr s0 \<and>
           (facet_loop d (unat w) 0
              (s0\<lparr>var_vertices := replicate (unat w * 9) (Num 0),
                  var_normals := replicate (unat w * 9) (Num 0)\<rparr>) = Inl RangeError \<longleftrightarrow>
            length d < 84 + unat w * 50 - (if \<exists>i<70. color_marker d i then 0 else 2))))"
  using parse_RangeError_iff [OF assms, of cap] by blast

theorem truncated_buffer_raises_witness:
  "getUint32 cut_triangle 80 True = Inr 1 \<and> 0 < unat (1 :: 32 word) \<and>
   length cut_triangle = 114 \<and> (114 :: nat) < 84 + unat (1 :: 32 word) * 50 - 2 \<and>
   unat (1 :: 32 word) * 9 \<le> (9 :: nat) \<and>
   parse 9 cut_triangle = Inl RangeError \<and>
   getUint32 (single_triangle 0) 80 True = Inr 1 \<and> length (single_triangle 0) = 134 \<and>
   (8 :: nat) < unat (1 :: 32 word) * 9 \<and>
   parse 8 (single_triangle 0) = Inl RangeError"
  using truncated_buffer_raises [OF cut_triangle_faces, of 9]
    truncated_buffer_raises [OF single_triangle_faces [of 0], of 8] cut_triangle_no_marker
  by (simp add: cut_triangle_faces cut_triangle_length single_triangle_faces
      single_triangle_length)

text \<open>
  Claim C8 as stated fails on a buffer without a marker that lacks only the attribute
  bytes of its last facet: 132 bytes, one facet, and \<open>parse\<close> returns the whole model.
\<close>

theorem truncated_buffer_counterexample:
  "getUint32 short_triangle 80 True = Inr 1 \<and> 0 < unat (1 :: 32 word) \<and>
   length short_triangle = 132 \<and> length short_triangle < 84 + unat (1 :: 32 word) * 50 \<and>
   parse 9 short_triangle =
     Inr \<lparr>hasColors = False,
          position = [Num 0, Num 0, Num 0,  Num 1, Num 0, Num 0,  Num 0, Num 1, Num 0],
          normals = [Num 0, Num 0, Num 1,  Num 0, Num 0, Num 1,  Num 0, Num 0, Num 1],
          colors = None, alpha = None\<rparr>"
  by (simp add: short_triangle_faces short_triangle_length parse_short_triangle)

text \<open>
  Claim C10, amended. No facet, with a marker: a buffer of at least 84 bytes with the
  facet count 0 and a full \<open>COLOR=\<close> pattern starting at an offset in \<open>[0, 70)\<close> decodes
  to \<open>hasColors = true\<close>, empty \<open>position\<close> and \<open>normals\<close>, a \<open>colors\<close> array of length 0,
  and \<open>alpha\<close> the quotient by 255 of the alpha byte of the last such pattern, the one
  that starts at the greatest offset below 70.
\<close>

theorem zero_facets_with_marker:
  assumes "84 \<le> length d" "getUint32 d 80 True = Inr 0" "\<exists>i<70. color_marker d i"
  shows "\<exists>i<70. color_marker d i \<and> (\<forall>j. i < j \<and> j < 70 \<longrightarrow> \<not> color_marker d j) \<and>
     parse cap d =
       Inr \<lparr>hasColors = True, position = [], normals = [], colors = Some [],
            alpha = Some (round_f64 (of_nat (unat (d ! (i + 9))) / 255))\<rparr>"
proof -
  have len: "80 \<le> length d" using assms(1) by simp
  from header_loop_cases [OF len, of cap "unat (0 :: 32 word)" init_locals] assms(3)
  obtain i where i: "i < 70" "color_marker d i" "\<forall>j. i < j \<and> j < 70 \<longrightarrow> \<not> color_marker d j"
    by blast
  from parse_zero_facets_marker [OF assms(1,2) i, of cap] have "parse cap d =
       Inr \<lparr>hasColors = True, position = [], normals = [], colors = Some [],
            alpha = Some (round_f64 (of_nat (unat (d ! (i + 9))) / 255))\<rparr>"
    by (simp add: div_byte_def)
  with i show ?thesis by blast
qed

theorem zero_facets_with_marker_witness:
  "84 \<le> length empty_colored \<and> getUint32 empty_colored 80 True = Inr 0 \<and>
   color_marker empty_colored 0 \<and> empty_colored ! (0 + 9) = 0xFF \<and>
   color_marker empty_colored 10 \<and> empty_colored ! (10 + 9) = 0x80 \<and>
   parse 0 empty_colored =
     Inr \<lparr>hasColors = True, position = [], normals = [], colors = Some [],
          alpha = Some (Num (282578800148737 / 562949953421312))\<rparr>"
proof -
  have ex: "\<exists>i<70. color_marker empty_colored i"
    using empty_colored_facts(4) by (intro exI [of _ 10]) simp
  from zero_facets_with_marker [OF empty_colored_facts(1,2) ex, of 0]
  obtain i where i: "i < 70" "color_marker empty_colored i"
    "\<forall>j. i < j \<and> j < 70 \<longrightarrow> \<not> color_marker empty_colored j"
    and p: "parse 0 empty_colored =
       Inr \<lparr>hasColors = True, position = [], normals = [], colors = Some [],
            alpha = Some (round_f64 (of_nat (unat (empty_colored ! (i + 9))) / 255))\<rparr>" by blast
  have "i = 10"
  proof (rule ccontr)
    assume "i \<noteq> 10"
    then consider "i < 10" | "10 < i" by linarith
    then show False using i empty_colored_facts(4,7) by cases auto
  qed
  then show ?thesis
    using p empty_colored_facts by (simp add: round_f64_128_255)
qed

text \<open>
  Claim C10 as stated fails when the marker within the first 70 bytes is followed by
  one that starts in them and ends behind them: in this buffer the only full pattern
  within the first 70 bytes is at offset 0, with the alpha byte \<open>0xFF\<close>, and \<open>alpha\<close> is
  not \<open>255 / 255 = 1\<close> but the double \<open>128 / 255\<close>, from the pattern at offset 66.
\<close>

theorem zero_facets_with_marker_counterexample:
  "84 \<le> length straddle_colored \<and> getUint32 straddle_colored 80 True = Inr 0 \<and>
   color_marker straddle_colored 0 \<and> straddle_colored ! (0 + 9) = 0xFF \<and>
   \<not> (\<exists>i. 0 < i \<and> i + 6 \<le> 70 \<and> color_marker straddle_colored i) \<and>
   (\<forall>cap. parse cap straddle_colored =
      Inr \<lparr>hasColors = True, position = [], normals = [], colors = Some [],
           alpha = Some (Num (282578800148737 / 562949953421312))\<rparr>) \<and>
   round_f64 (of_nat (unat (0xFF :: byte)) / 255) = Num 1 \<and>
   Num (282578800148737 / 562949953421312) \<noteq> Num 1"
proof -
  have "parse cap straddle_colored =
      Inr \<lparr>hasColors = True, position = [], normals = [], colors = Some [],
           alpha = Some (Num (282578800148737 / 562949953421312))\<rparr>" for cap
    using parse_zero_facets_marker [OF _ straddle_colored_facts(2) _ straddle_colored_facts(5,7),
        of cap]
    by (simp add: straddle_colored_facts div_byte_values)
  then show ?thesis using straddle_colored_facts by (simp add: round_f64_one)
qed

text \<open>
  Claim C9. \<open>parse\<close> is a pure function of the bytes of its input. On two heaps that
  hold the same bytes in the input buffer, whatever else they hold and wherever the
  buffer lies, it raises the same exception or returns models with the same contents:
  the outcome is that of \<open>parse\<close> on the bytes. Every object of the heap before the
  call, the input buffer among them, is unchanged after it, whether \<open>parse\<close> returns
  or raises. The one thing besides the bytes that the outcome depends on is whether the
  host can allocate the arrays, which is the parameter \<open>cap\<close>.
\<close>

theorem parse_pure:
  assumes "d1 < length h1" "h1 ! d1 = ArrayBuffer bs" "d2 < length h2" "h2 ! d2 = ArrayBuffer bs"
  shows "observe (parse_h cap d1 h1) = observe (parse_h cap d2 h2) \<and>
     observe (parse_h cap d1 h1) = parse cap bs \<and>
     extends h1 (heap_after (parse_h cap d1 h1))"
  using parse_h_refines [OF assms(1,2), of cap] parse_h_refines [OF assms(3,4), of cap] by simp

theorem parse_pure_witness:
  "(0 :: nat) < length [ArrayBuffer colored_mesh] \<and>
   [ArrayBuffer colored_mesh] ! 0 = ArrayBuffer colored_mesh \<and>
   (1 :: nat) < length [Float32Array [Num 5], ArrayBuffer colored_mesh] \<and>
   [Float32Array [Num 5], ArrayBuffer colored_mesh] ! 1 = ArrayBuffer colored_mesh \<and>
   observe (parse_h 27 0 [ArrayBuffer colored_mesh]) =
     observe (parse_h 27 1 [Float32Array [Num 5], ArrayBuffer colored_mesh]) \<and>
   observe (parse_h 27 0 [ArrayBuffer colored_mesh]) = parse 27 colored_mesh \<and>
   extends [ArrayBuffer colored_mesh] (heap_after (parse_h 27 0 [ArrayBuffer colored_mesh])) \<and>
   hasColors (projr (parse 27 colored_mesh)) \<and>
   observe (parse_h 26 0 [ArrayBuffer colored_mesh]) = Inl RangeError \<and>
   extends [ArrayBuffer colored_mesh] (heap_after (parse_h 26 0 [ArrayBuffer colored_mesh]))"
proof -
  have a: "(0 :: nat) < length [ArrayBuffer colored_mesh]"
    "[ArrayBuffer colored_mesh] ! 0 = ArrayBuffer colored_mesh"
    by simp_all
  have b: "(1 :: nat) < length [Float32Array [Num 5], ArrayBuffer colored_mesh]"
    "[Float32Array [Num 5], ArrayBuffer colored_mesh] ! 1 = ArrayBuffer colored_mesh"
    by simp_all
  have h: "hasColors (projr (parse 27 colored_mesh))"
    using parse_colored_mesh [of 27] by simp
  have "\<not> unat (3 :: 32 word) * 9 \<le> (26 :: nat)" by simp
  from parse_alloc_fails [OF colored_mesh_faces this]
  have f: "parse 26 colored_mesh = Inl RangeError" .
  from parse_pure [OF a a, of 26] f
  have o: "observe (parse_h 26 0 [ArrayBuffer colored_mesh]) = Inl RangeError"
    and e: "extends [ArrayBuffer colored_mesh] (heap_after (parse_h 26 0 [ArrayBuffer colored_mesh]))"
    by simp_all
  from parse_pure [OF a b, of 27] a b h o e show ?thesis by blast
qed

end
